theory Spec2Isabelle
  imports Complex_Main "HOL-Library.AList" "HOL-Library.Sublist"
begin

section \<open>Supervised descent fitter: the training orchestrator\<close>

text \<open>
  A shallow embedding of \<^verbatim>\<open>SupervisedDescentFitter._train\<close> and
  \<^verbatim>\<open>SupervisedDescentFitter.increment\<close> (menpofit/sdm/fitter.py).

  The fitter's attributes, the image objects it is handed, the random source of the
  perturbation strategy and a chronological log of the calls made to collaborators are
  the fields of one state record, passed through every function and returned updated;
  an exception leaves the state as it was when it was raised. Image objects live in an
  explicit store, a batch is a list of addresses, so that attaching a landmark group to an
  image is a store update visible through every alias of that image.

  Collaborators that the source file imports (menpo, menpofit.builder, menpofit.fitter,
  the regression algorithm class) are the fields of an environment record. They are
  taken as total functions: their own failures are not modelled.
\<close>

subsection \<open>Data\<close>

type_synonym shape = "(rat \<times> rat) list"

type_synonym landmark_manager = "(string \<times> shape) list"

type_synonym addr = nat

record 'px image =
  landmarks :: landmark_manager
  pixels :: 'px

datatype error = IndexError | KeyError string | ZeroDivisionError

datatype warning =
    NoReferenceShapeWarning
  | NPerturbationsResetWarning int int

datatype event =
    Warn warning
  | ComputeReferenceShape "shape list" "rat option"
  | RescaleToReference "addr list" string shape
  | Perturb shape shape
  | ComputeFeatures nat nat
  | ScaleImages nat rat
  | Train nat "shape list list" "shape list list"
  | Increment nat "shape list list" "shape list list"
  | ScaleShapes nat rat

record ('px, 'alg, 'rng) state =
  reference_shape :: "shape option"
  n_perturbations :: int
  algorithms :: "'alg list"
  features :: "nat list"
  scales :: "rat list"
  diagonal :: "rat option"
  heap :: "addr \<Rightarrow> 'px image"
  rng :: 'rng
  log :: "event list"

record ('px, 'alg, 'rng) env =
  fnmatch :: "string \<Rightarrow> string \<Rightarrow> bool"
  compute_reference_shape :: "shape list \<Rightarrow> rat option \<Rightarrow> shape"
  rescale_images_to_reference_shape ::
    "(addr \<Rightarrow> 'px image) \<Rightarrow> addr list \<Rightarrow> string \<Rightarrow> shape \<Rightarrow> (addr \<Rightarrow> 'px image) \<times> addr list"
  bounding_box :: "shape \<Rightarrow> shape"
  perturb_from_bounding_box :: "'rng \<Rightarrow> shape \<Rightarrow> shape \<Rightarrow> shape \<times> 'rng"
  compute_features :: "'px image list \<Rightarrow> nat \<Rightarrow> 'px image list"
  scale_images :: "'px image list \<Rightarrow> rat \<Rightarrow> 'px image list"
  align_shape_with_bounding_box :: "shape \<Rightarrow> shape \<Rightarrow> shape"
  alg_train :: "'alg \<Rightarrow> 'px image list \<Rightarrow> shape list \<Rightarrow> shape list list \<Rightarrow> 'alg \<times> shape list list"
  alg_increment :: "'alg \<Rightarrow> 'px image list \<Rightarrow> shape list \<Rightarrow> shape list list \<Rightarrow> 'alg \<times> shape list list"

subsection \<open>Python primitives\<close>

text \<open>\<^verbatim>\<open>xs[j]\<close> for a non-negative index.\<close>

definition index :: "'a list \<Rightarrow> nat \<Rightarrow> error + 'a" where
  "index xs j = (if j < length xs then Inr (xs ! j) else Inl IndexError)"

text \<open>A list comprehension whose body may raise: the first exception ends it.\<close>

fun collect :: "('a \<Rightarrow> error + 'b) \<Rightarrow> 'a list \<Rightarrow> error + 'b list" where
  "collect f [] = Inr []"
| "collect f (x # xs) =
     (case f x of
        Inl e \<Rightarrow> Inl e
      | Inr y \<Rightarrow> (case collect f xs of Inl e \<Rightarrow> Inl e | Inr ys \<Rightarrow> Inr (y # ys)))"

text \<open>\<^verbatim>\<open>str(n)\<close> for a non-negative integer.\<close>

definition digit :: "nat \<Rightarrow> char" where
  "digit d = char_of (of_char CHR ''0'' + d)"

function str_nat :: "nat \<Rightarrow> string" where
  "str_nat n = (if n < 10 then [digit n] else str_nat (n div 10) @ [digit (n mod 10)])"
  by pat_completeness auto
termination
  by (relation "measure (\<lambda>n. n)") auto

declare str_nat.simps [simp del]

text \<open>
  The landmark manager of an image: \<^verbatim>\<open>lm[k].lms\<close>, \<^verbatim>\<open>lm[k] = v\<close>,
  \<^verbatim>\<open>lm.group_labels\<close> and \<^verbatim>\<open>lm.keys_matching(pattern)\<close>, the last one
  through the glob matcher of the environment.
\<close>

definition lms :: "landmark_manager \<Rightarrow> string \<Rightarrow> error + shape" where
  "lms lm k = (case map_of lm k of None \<Rightarrow> Inl (KeyError k) | Some v \<Rightarrow> Inr v)"

definition group_labels :: "landmark_manager \<Rightarrow> string list" where
  "group_labels lm = map fst lm"

definition keys_matching :: "('px, 'alg, 'rng) env \<Rightarrow> landmark_manager \<Rightarrow> string \<Rightarrow> string list" where
  "keys_matching E lm pat = filter (\<lambda>k. fnmatch E k pat) (map fst lm)"

definition set_landmarks ::
  "addr \<Rightarrow> string \<Rightarrow> shape \<Rightarrow> ('px, 'alg, 'rng) state \<Rightarrow> ('px, 'alg, 'rng) state" where
  "set_landmarks i k v s =
     s\<lparr>heap := (heap s)(i := (heap s i)\<lparr>landmarks := AList.update k v (landmarks (heap s i))\<rparr>)\<rparr>"

definition emit :: "event \<Rightarrow> ('px, 'alg, 'rng) state \<Rightarrow> ('px, 'alg, 'rng) state" where
  "emit e s = s\<lparr>log := log s @ [e]\<rparr>"

text \<open>\<^verbatim>\<open>Scale(ratio, n_dims=2).apply_inplace(shape)\<close>: every point times the ratio.\<close>

definition scale_apply :: "rat \<Rightarrow> shape \<Rightarrow> shape" where
  "scale_apply r sh = map (\<lambda>(y, x). (r * y, r * x)) sh"

text \<open>
  Modelled from the spec: \<^verbatim>\<open>menpofit.base.batch\<close> is not part of the source at hand; the
  input is "consumed lazily in fixed-size chunks", the last chunk holding what is left.
  A finite list stands for the image source.
\<close>

function batch :: "'a list \<Rightarrow> nat \<Rightarrow> 'a list list" where
  "batch xs n = (if n = 0 \<or> xs = [] then [] else take n xs # batch (drop n xs) n)"
  by pat_completeness auto
termination
  by (relation "measure (\<lambda>(xs, n). length xs)") auto

declare batch.simps [simp del]

subsection \<open>One batch, up to the scale loop\<close>

text \<open>
  Lines 89-90: without a group name, the first landmark group of the first image of the
  batch is taken.
\<close>

definition resolve_group ::
  "('px, 'alg, 'rng) state \<Rightarrow> string option \<Rightarrow> addr list \<Rightarrow> error + string" where
  "resolve_group s grp image_batch =
     (case grp of
        Some g \<Rightarrow> Inr g
      | None \<Rightarrow>
          (case index image_batch 0 of
             Inl e \<Rightarrow> Inl e
           | Inr i \<Rightarrow> index (group_labels (landmarks (heap s i))) 0))"

text \<open>
  Lines 92-103. \<open>batched\<close> is \<^verbatim>\<open>batch_size is not None\<close>. The function returns the
  value of \<^verbatim>\<open>self.reference_shape\<close>, which the rest of the batch reads and never writes.
\<close>

definition ensure_reference_shape ::
  "('px, 'alg, 'rng) env \<Rightarrow> bool \<Rightarrow> string \<Rightarrow> addr list \<Rightarrow> ('px, 'alg, 'rng) state
     \<Rightarrow> (error + shape) \<times> ('px, 'alg, 'rng) state" where
  "ensure_reference_shape E batched grp image_batch s =
     (case reference_shape s of
        Some r \<Rightarrow> (Inr r, s)
      | None \<Rightarrow>
          (let s1 = (if batched then emit (Warn NoReferenceShapeWarning) s else s) in
           case collect (\<lambda>i. lms (landmarks (heap s1 i)) grp) image_batch of
             Inl e \<Rightarrow> (Inl e, s1)
           | Inr shapes \<Rightarrow>
               (let r = compute_reference_shape E shapes (diagonal s1) in
                (Inr r, emit (ComputeReferenceShape shapes (diagonal s1))
                          (s1\<lparr>reference_shape := Some r\<rparr>)))))"

text \<open>Lines 106-108: the batch is rebound to what the collaborator returns.\<close>

definition rescale ::
  "('px, 'alg, 'rng) env \<Rightarrow> string \<Rightarrow> shape \<Rightarrow> addr list \<Rightarrow> ('px, 'alg, 'rng) state
     \<Rightarrow> addr list \<times> ('px, 'alg, 'rng) state" where
  "rescale E grp r image_batch s =
     (let (h, b) = rescale_images_to_reference_shape E (heap s) image_batch grp r
      in (b, emit (RescaleToReference image_batch grp r) (s\<lparr>heap := h\<rparr>)))"

text \<open>Lines 116-119: the ground-truth bounding box of every image of the batch.\<close>

fun attach_gt_bb ::
  "('px, 'alg, 'rng) env \<Rightarrow> string \<Rightarrow> addr list \<Rightarrow> ('px, 'alg, 'rng) state
     \<Rightarrow> error option \<times> ('px, 'alg, 'rng) state" where
  "attach_gt_bb E grp [] s = (None, s)"
| "attach_gt_bb E grp (i # rest) s =
     (case lms (landmarks (heap s i)) grp of
        Inl e \<Rightarrow> (Some e, s)
      | Inr gt_s \<Rightarrow>
          attach_gt_bb E grp rest
            (set_landmarks i (''__gt_bb_'' @ ''0'') (bounding_box E gt_s) s))"

text \<open>Lines 111-121.\<close>

definition resolve_bb_group ::
  "('px, 'alg, 'rng) env \<Rightarrow> string \<Rightarrow> string option \<Rightarrow> addr list \<Rightarrow> ('px, 'alg, 'rng) state
     \<Rightarrow> (error + string) \<times> ('px, 'alg, 'rng) state" where
  "resolve_bb_group E grp bounding_box_group image_batch s =
     (case bounding_box_group of
        None \<Rightarrow>
          (case attach_gt_bb E grp image_batch s of
             (Some e, s') \<Rightarrow> (Inl e, s')
           | (None, s') \<Rightarrow> (Inr ''__gt_bb_'', s'))
      | Some g \<Rightarrow> (Inr g, s))"

text \<open>Lines 140-147: the inner loop over \<^verbatim>\<open>range(1, self.n_perturbations)\<close> for one image.\<close>

fun perturb_image ::
  "('px, 'alg, 'rng) env \<Rightarrow> string \<Rightarrow> string \<Rightarrow> string \<Rightarrow> addr \<Rightarrow> nat list
     \<Rightarrow> ('px, 'alg, 'rng) state \<Rightarrow> error option \<times> ('px, 'alg, 'rng) state" where
  "perturb_image E grp bb_group key0 i [] s = (None, s)"
| "perturb_image E grp bb_group key0 i (j # js) s =
     (case lms (landmarks (heap s i)) grp of
        Inl e \<Rightarrow> (Some e, s)
      | Inr g \<Rightarrow>
          (case lms (landmarks (heap s i)) key0 of
             Inl e \<Rightarrow> (Some e, s)
           | Inr bb \<Rightarrow>
               (let gt_s = bounding_box E g;
                    (p_s, r') = perturb_from_bounding_box E (rng s) gt_s bb;
                    s1 = emit (Perturb gt_s bb) (s\<lparr>rng := r'\<rparr>)
                in perturb_image E grp bb_group key0 i js
                     (set_landmarks i (bb_group @ ''_'' @ str_nat j) p_s s1))))"

text \<open>Line 136: the outer loop over the images of the batch.\<close>

fun perturb_images ::
  "('px, 'alg, 'rng) env \<Rightarrow> string \<Rightarrow> string \<Rightarrow> string \<Rightarrow> addr list
     \<Rightarrow> ('px, 'alg, 'rng) state \<Rightarrow> error option \<times> ('px, 'alg, 'rng) state" where
  "perturb_images E grp bb_group key0 [] s = (None, s)"
| "perturb_images E grp bb_group key0 (i # rest) s =
     (case perturb_image E grp bb_group key0 i [1 ..< nat (n_perturbations s)] s of
        (Some e, s') \<Rightarrow> (Some e, s')
      | (None, s') \<Rightarrow> perturb_images E grp bb_group key0 rest s')"

text \<open>Lines 125-154: count the boxes of the first image, then generate or reconcile.\<close>

definition bb_pattern :: "string \<Rightarrow> string" where
  "bb_pattern bb_group = ''*'' @ bb_group @ ''*''"

definition generate_perturbations ::
  "('px, 'alg, 'rng) env \<Rightarrow> string \<Rightarrow> string \<Rightarrow> addr list \<Rightarrow> ('px, 'alg, 'rng) state
     \<Rightarrow> error option \<times> ('px, 'alg, 'rng) state" where
  "generate_perturbations E grp bb_group image_batch s =
     (case index image_batch 0 of
        Inl e \<Rightarrow> (Some e, s)
      | Inr i0 \<Rightarrow>
          (let all_bb_keys = keys_matching E (landmarks (heap s i0)) (bb_pattern bb_group);
               n = int (length all_bb_keys)
           in if n = 1 then
                perturb_images E grp bb_group (all_bb_keys ! 0) image_batch s
              else if n \<noteq> n_perturbations s then
                (None, (emit (Warn (NPerturbationsResetWarning (n_perturbations s) n)) s)
                          \<lparr>n_perturbations := n\<rparr>)
              else (None, s)))"

subsection \<open>The scale loop\<close>

text \<open>Lines 173-180. Feature functions are compared by identity, here by their number.\<close>

definition handle_features ::
  "('px, 'alg, 'rng) env \<Rightarrow> addr list \<Rightarrow> nat \<Rightarrow> 'px image list \<Rightarrow> ('px, 'alg, 'rng) state
     \<Rightarrow> (error + 'px image list) \<times> ('px, 'alg, 'rng) state" where
  "handle_features E image_batch j feature_images s =
     (case index (features s) j of
        Inl e \<Rightarrow> (Inl e, s)
      | Inr f \<Rightarrow>
          (let recompute = (Inr (compute_features E (map (heap s) image_batch) f),
                            emit (ComputeFeatures j f) s)
           in if j = 0 then recompute
              else (case index (features s) (j - 1) of
                      Inl e \<Rightarrow> (Inl e, s)
                    | Inr f' \<Rightarrow> if f \<noteq> f' then recompute else (Inr feature_images, s))))"

text \<open>Lines 182-188.\<close>

definition handle_scales ::
  "('px, 'alg, 'rng) env \<Rightarrow> nat \<Rightarrow> 'px image list \<Rightarrow> ('px, 'alg, 'rng) state
     \<Rightarrow> (error + 'px image list) \<times> ('px, 'alg, 'rng) state" where
  "handle_scales E j feature_images s =
     (case index (scales s) j of
        Inl e \<Rightarrow> (Inl e, s)
      | Inr sc \<Rightarrow>
          if sc \<noteq> 1 then (Inr (scale_images E feature_images sc), emit (ScaleImages j sc) s)
          else (Inr feature_images, s))"

text \<open>Lines 200-207: one aligned shape per bounding-box key, for every image.\<close>

definition extract_perturbations ::
  "('px, 'alg, 'rng) env \<Rightarrow> shape \<Rightarrow> string list \<Rightarrow> 'px image list \<Rightarrow> error + shape list list" where
  "extract_perturbations E r all_bb_keys scaled_images =
     collect (\<lambda>i. collect (\<lambda>perturb_bbox_group.
                 case lms (landmarks i) perturb_bbox_group of
                   Inl e \<Rightarrow> Inl e
                 | Inr bbox \<Rightarrow> Inr (align_shape_with_bounding_box E r bbox)) all_bb_keys)
       scaled_images"

text \<open>Lines 193-207: only at the first scale are the estimates made from the boxes.\<close>

definition initial_shapes ::
  "('px, 'alg, 'rng) env \<Rightarrow> shape \<Rightarrow> string list \<Rightarrow> nat \<Rightarrow> 'px image list \<Rightarrow> shape list list
     \<Rightarrow> error + shape list list" where
  "initial_shapes E r all_bb_keys j scaled_images current_shapes =
     (if j = 0 then
        (case extract_perturbations E r all_bb_keys scaled_images of
           Inl e \<Rightarrow> Inl e
         | Inr ps \<Rightarrow> Inr (current_shapes @ ps))
      else Inr current_shapes)"

text \<open>Lines 210-217. The stage object is updated where it stands in \<^verbatim>\<open>self.algorithms\<close>.\<close>

definition run_algorithm ::
  "('px, 'alg, 'rng) env \<Rightarrow> bool \<Rightarrow> nat \<Rightarrow> 'px image list \<Rightarrow> shape list \<Rightarrow> shape list list
     \<Rightarrow> ('px, 'alg, 'rng) state \<Rightarrow> (error + shape list list) \<times> ('px, 'alg, 'rng) state" where
  "run_algorithm E increment j scaled_images scaled_shapes current_shapes s =
     (case index (algorithms s) j of
        Inl e \<Rightarrow> (Inl e, s)
      | Inr a \<Rightarrow>
          if \<not> increment then
            (let (a', cs) = alg_train E a scaled_images scaled_shapes current_shapes
             in (Inr cs, emit (Train j current_shapes cs)
                           (s\<lparr>algorithms := (algorithms s)[j := a']\<rparr>)))
          else
            (let (a', cs) = alg_increment E a scaled_images scaled_shapes current_shapes
             in (Inr cs, emit (Increment j current_shapes cs)
                           (s\<lparr>algorithms := (algorithms s)[j := a']\<rparr>))))"

text \<open>Lines 221-226. \<^verbatim>\<open>self.n_scales\<close> is \<^verbatim>\<open>len(self.scales)\<close>; the division is exact.\<close>

definition n_scales :: "('px, 'alg, 'rng) state \<Rightarrow> nat" where
  "n_scales s = length (scales s)"

definition scale_to_next ::
  "nat \<Rightarrow> shape list list \<Rightarrow> ('px, 'alg, 'rng) state
     \<Rightarrow> (error + shape list list) \<times> ('px, 'alg, 'rng) state" where
  "scale_to_next j current_shapes s =
     (if j \<noteq> n_scales s - 1 then
        (case index (scales s) (j + 1) of
           Inl e \<Rightarrow> (Inl e, s)
         | Inr a \<Rightarrow>
             (case index (scales s) j of
                Inl e \<Rightarrow> (Inl e, s)
              | Inr b \<Rightarrow>
                  if b = 0 then (Inl ZeroDivisionError, s)
                  else (Inr (map (map (scale_apply (a / b))) current_shapes),
                        emit (ScaleShapes j (a / b)) s)))
      else (Inr current_shapes, s))"

text \<open>
  Lines 163-226, one pass of the loop body. The loop variables \<^verbatim>\<open>feature_images\<close> and
  \<^verbatim>\<open>current_shapes\<close> are passed in and returned.
\<close>

definition scale_level ::
  "('px, 'alg, 'rng) env \<Rightarrow> string \<Rightarrow> shape \<Rightarrow> string list \<Rightarrow> addr list \<Rightarrow> bool \<Rightarrow> nat
     \<Rightarrow> 'px image list \<Rightarrow> shape list list \<Rightarrow> ('px, 'alg, 'rng) state
     \<Rightarrow> error option \<times> 'px image list \<times> shape list list \<times> ('px, 'alg, 'rng) state" where
  "scale_level E grp r all_bb_keys image_batch increment j feature_images current_shapes s =
     (case handle_features E image_batch j feature_images s of
        (Inl e, s1) \<Rightarrow> (Some e, feature_images, current_shapes, s1)
      | (Inr fi, s1) \<Rightarrow>
     (case handle_scales E j fi s1 of
        (Inl e, s2) \<Rightarrow> (Some e, fi, current_shapes, s2)
      | (Inr scaled_images, s2) \<Rightarrow>
     (case collect (\<lambda>i. lms (landmarks i) grp) scaled_images of
        Inl e \<Rightarrow> (Some e, fi, current_shapes, s2)
      | Inr scaled_shapes \<Rightarrow>
     (case initial_shapes E r all_bb_keys j scaled_images current_shapes of
        Inl e \<Rightarrow> (Some e, fi, current_shapes, s2)
      | Inr cs0 \<Rightarrow>
     (case run_algorithm E increment j scaled_images scaled_shapes cs0 s2 of
        (Inl e, s3) \<Rightarrow> (Some e, fi, cs0, s3)
      | (Inr cs1, s3) \<Rightarrow>
     (case scale_to_next j cs1 s3 of
        (Inl e, s4) \<Rightarrow> (Some e, fi, cs1, s4)
      | (Inr cs2, s4) \<Rightarrow> (None, fi, cs2, s4)))))))"

fun scale_loop ::
  "('px, 'alg, 'rng) env \<Rightarrow> string \<Rightarrow> shape \<Rightarrow> string list \<Rightarrow> addr list \<Rightarrow> bool \<Rightarrow> nat list
     \<Rightarrow> 'px image list \<Rightarrow> shape list list \<Rightarrow> ('px, 'alg, 'rng) state
     \<Rightarrow> error option \<times> shape list list \<times> ('px, 'alg, 'rng) state" where
  "scale_loop E grp r all_bb_keys image_batch increment [] feature_images current_shapes s =
     (None, current_shapes, s)"
| "scale_loop E grp r all_bb_keys image_batch increment (j # js) feature_images current_shapes s =
     (case scale_level E grp r all_bb_keys image_batch increment j feature_images current_shapes s of
        (Some e, fi, cs, s') \<Rightarrow> (Some e, cs, s')
      | (None, fi, cs, s') \<Rightarrow> scale_loop E grp r all_bb_keys image_batch increment js fi cs s')"

subsection \<open>Batches\<close>

text \<open>
  Lines 86-159, the part of the loop body before the scale loop. It yields the local
  variables that the scale loop reads: the resolved group name, the reference shape, the
  rescaled batch, the bounding-box namespace and the keys grabbed at lines 158-159.
\<close>

definition prepare_batch ::
  "('px, 'alg, 'rng) env \<Rightarrow> string option \<Rightarrow> string option \<Rightarrow> bool \<Rightarrow> addr list
     \<Rightarrow> ('px, 'alg, 'rng) state
     \<Rightarrow> (error + string \<times> shape \<times> addr list \<times> string \<times> string list) \<times> ('px, 'alg, 'rng) state" where
  "prepare_batch E grp_opt bounding_box_group batched image_batch s =
     (case resolve_group s grp_opt image_batch of
        Inl e \<Rightarrow> (Inl e, s)
      | Inr grp \<Rightarrow>
     (case ensure_reference_shape E batched grp image_batch s of
        (Inl e, s1) \<Rightarrow> (Inl e, s1)
      | (Inr r, s1) \<Rightarrow>
     (case rescale E grp r image_batch s1 of (image_batch', s2) \<Rightarrow>
     (case resolve_bb_group E grp bounding_box_group image_batch' s2 of
        (Inl e, s3) \<Rightarrow> (Inl e, s3)
      | (Inr bb_group, s3) \<Rightarrow>
     (case generate_perturbations E grp bb_group image_batch' s3 of
        (Some e, s4) \<Rightarrow> (Inl e, s4)
      | (None, s4) \<Rightarrow>
     (case index image_batch' 0 of
        Inl e \<Rightarrow> (Inl e, s4)
      | Inr i0 \<Rightarrow>
          (Inr (grp, r, image_batch', bb_group,
                keys_matching E (landmarks (heap s4 i0)) (bb_pattern bb_group)), s4)))))))"

text \<open>
  Lines 83-226, the body of the loop over batches. It returns the group name it resolved
  (a local variable that later batches see) and the final \<^verbatim>\<open>current_shapes\<close>.
\<close>

definition train_batch ::
  "('px, 'alg, 'rng) env \<Rightarrow> string option \<Rightarrow> string option \<Rightarrow> bool \<Rightarrow> bool \<Rightarrow> addr list
     \<Rightarrow> ('px, 'alg, 'rng) state
     \<Rightarrow> error option \<times> string option \<times> shape list list \<times> ('px, 'alg, 'rng) state" where
  "train_batch E grp_opt bounding_box_group batched increment image_batch s =
     (case prepare_batch E grp_opt bounding_box_group batched image_batch s of
        (Inl e, s4) \<Rightarrow> (Some e, grp_opt, [], s4)
      | (Inr (grp, r, image_batch', bb_group, all_bb_keys), s4) \<Rightarrow>
          (case scale_loop E grp r all_bb_keys image_batch' increment [0 ..< n_scales s4] [] [] s4 of
             (err, cs, s5) \<Rightarrow> (err, Some grp, cs, s5)))"

text \<open>Lines 78-81: after the first batch, the model is incremented.\<close>

fun train_batches ::
  "('px, 'alg, 'rng) env \<Rightarrow> string option \<Rightarrow> string option \<Rightarrow> bool \<Rightarrow> bool \<Rightarrow> addr list list
     \<Rightarrow> ('px, 'alg, 'rng) state \<Rightarrow> error option \<times> ('px, 'alg, 'rng) state" where
  "train_batches E grp_opt bounding_box_group batched increment [] s = (None, s)"
| "train_batches E grp_opt bounding_box_group batched increment (image_batch # rest) s =
     (case train_batch E grp_opt bounding_box_group batched increment image_batch s of
        (Some e, g, cs, s') \<Rightarrow> (Some e, s')
      | (None, g, cs, s') \<Rightarrow> train_batches E g bounding_box_group batched True rest s')"

text \<open>Lines 71-76.\<close>

definition image_batches :: "addr list \<Rightarrow> nat option \<Rightarrow> addr list list" where
  "image_batches images batch_size =
     (case batch_size of Some n \<Rightarrow> batch images n | None \<Rightarrow> [images])"

text \<open>
  \<^verbatim>\<open>_train\<close> (lines 66-226), \<^verbatim>\<open>increment\<close> (lines 228-233) and the call that ends
  \<^verbatim>\<open>__init__\<close> (lines 52-53).
\<close>

definition sdf_train ::
  "('px, 'alg, 'rng) env \<Rightarrow> addr list \<Rightarrow> string option \<Rightarrow> string option \<Rightarrow> bool \<Rightarrow> nat option
     \<Rightarrow> ('px, 'alg, 'rng) state \<Rightarrow> error option \<times> ('px, 'alg, 'rng) state" where
  "sdf_train E images grp_opt bounding_box_group increment batch_size s =
     train_batches E grp_opt bounding_box_group (batch_size \<noteq> None) increment
       (image_batches images batch_size) s"

definition sdf_increment ::
  "('px, 'alg, 'rng) env \<Rightarrow> addr list \<Rightarrow> string option \<Rightarrow> string option \<Rightarrow> nat option
     \<Rightarrow> ('px, 'alg, 'rng) state \<Rightarrow> error option \<times> ('px, 'alg, 'rng) state" where
  "sdf_increment E images grp_opt bounding_box_group batch_size s =
     sdf_train E images grp_opt bounding_box_group True batch_size s"

definition sdf_init ::
  "('px, 'alg, 'rng) env \<Rightarrow> addr list \<Rightarrow> string option \<Rightarrow> string option \<Rightarrow> nat option
     \<Rightarrow> ('px, 'alg, 'rng) state \<Rightarrow> error option \<times> ('px, 'alg, 'rng) state" where
  "sdf_init E images grp_opt bounding_box_group batch_size s =
     sdf_train E images grp_opt bounding_box_group False batch_size s"

subsection \<open>A concrete environment\<close>

text \<open>
  Collaborators to run the orchestrator on concrete inputs. The glob matcher knows
  \<^verbatim>\<open>*\<close> and \<^verbatim>\<open>?\<close>; the bounding box is the four corners of the coordinate ranges; the
  reference shape is the point-wise mean; rescaling returns copies of the images at fresh
  addresses (the caller's address plus 100), as \<^verbatim>\<open>rescale_to_pointcloud\<close> does; the
  perturbation strategy shifts the box by the number of calls made so far; a stage counts
  the images it has seen and moves every estimate by one unit.
\<close>

fun glob :: "string \<Rightarrow> string \<Rightarrow> bool" where
  "glob [] t = (t = [])"
| "glob (p # ps) t =
     (if p = CHR ''*'' then
        (glob ps t \<or> (case t of [] \<Rightarrow> False | c # cs \<Rightarrow> glob (p # ps) cs))
      else (case t of [] \<Rightarrow> False | c # cs \<Rightarrow> (p = CHR ''?'' \<or> p = c) \<and> glob ps cs))"

definition bbox :: "shape \<Rightarrow> shape" where
  "bbox sh =
     (case sh of
        [] \<Rightarrow> []
      | p # ps \<Rightarrow>
          (let y0 = fold min (map fst ps) (fst p); y1 = fold max (map fst ps) (fst p);
               x0 = fold min (map snd ps) (snd p); x1 = fold max (map snd ps) (snd p)
           in [(y0, x0), (y1, x0), (y1, x1), (y0, x1)]))"

definition mean_shape :: "shape list \<Rightarrow> shape" where
  "mean_shape shapes =
     (case shapes of
        [] \<Rightarrow> []
      | sh # _ \<Rightarrow>
          map (\<lambda>k. (sum_list (map (\<lambda>s. fst (s ! k)) shapes) / of_nat (length shapes),
                     sum_list (map (\<lambda>s. snd (s ! k)) shapes) / of_nat (length shapes)))
            [0 ..< length sh])"

text \<open>
  Modelled from the spec: \<^verbatim>\<open>menpofit.builder.rescale_images_to_reference_shape\<close> is not
  part of the source at hand. Its interface is "rescale(images, group, reference_shape) ->
  images", and the data of a batch is "transient, discarded after the batch completes":
  the rescaled images are new objects, here allocated at the caller's address plus 100,
  and the caller's objects are left as they are.
\<close>

definition copy_images ::
  "(addr \<Rightarrow> unit image) \<Rightarrow> addr list \<Rightarrow> (addr \<Rightarrow> unit image) \<times> addr list" where
  "copy_images h image_batch =
     (fold (\<lambda>a h'. h'(a + 100 := h a)) image_batch h, map (\<lambda>a. a + 100) image_batch)"

definition example_env :: "(unit, nat, nat) env" where
  "example_env =
     \<lparr> fnmatch = (\<lambda>k pat. glob pat k),
       compute_reference_shape = (\<lambda>shapes d. mean_shape shapes),
       rescale_images_to_reference_shape = (\<lambda>h image_batch grp r. copy_images h image_batch),
       bounding_box = bbox,
       perturb_from_bounding_box = (\<lambda>n gt_s bb. (map (\<lambda>(y, x). (y + of_nat n + 1, x)) bb, n + 1)),
       compute_features = (\<lambda>imgs f. imgs),
       scale_images =
         (\<lambda>imgs sc. map (\<lambda>i. i\<lparr>landmarks := map (\<lambda>(k, v). (k, scale_apply sc v)) (landmarks i)\<rparr>) imgs),
       align_shape_with_bounding_box = (\<lambda>r b. b),
       alg_train = (\<lambda>a imgs shapes cs. (a + length imgs, map (map (map (\<lambda>(y, x). (y, x + 1)))) cs)),
       alg_increment = (\<lambda>a imgs shapes cs. (a + length imgs, map (map (map (\<lambda>(y, x). (y, x + 1)))) cs)) \<rparr>"

text \<open>
  A fitter as \<^verbatim>\<open>__init__\<close> leaves it before training (two scales, one shared feature
  function, no reference shape), over a store of images that carry one landmark group
  \<^verbatim>\<open>PTS\<close> of three points and, under each of the given keys, a box one unit wider
  than the bounding box of the points on every side.
\<close>

definition example_image :: "string list \<Rightarrow> rat \<Rightarrow> unit image" where
  "example_image bb_keys d =
     \<lparr> landmarks = (''PTS'', [(d, 0), (d + 2, 4), (d + 4, 2)])
                    # map (\<lambda>k. (k, [(d - 1, - 1), (d + 5, - 1), (d + 5, 5), (d - 1, 5)])) bb_keys,
       pixels = () \<rparr>"

definition example_state :: "string list \<Rightarrow> int \<Rightarrow> (unit, nat, nat) state" where
  "example_state bb_keys k =
     \<lparr> reference_shape = None, n_perturbations = k, algorithms = [0, 0],
       features = [7, 7], scales = [1 / 2, 1], diagonal = None,
       heap = (\<lambda>a. example_image bb_keys (of_nat a)), rng = 0, log = [] \<rparr>"

subsection \<open>Reading the log\<close>

definition new_events :: "('px, 'alg, 'rng) state \<Rightarrow> ('px, 'alg, 'rng) state \<Rightarrow> event list" where
  "new_events s s' = drop (length (log s)) (log s')"

fun is_perturb :: "event \<Rightarrow> bool" where
  "is_perturb (Perturb a b) = True"
| "is_perturb e = False"

fun is_warning :: "event \<Rightarrow> bool" where
  "is_warning (Warn w) = True"
| "is_warning e = False"

text \<open>Calls of a stage's \<^verbatim>\<open>train\<close> or \<^verbatim>\<open>increment\<close>, and what they were given and returned.\<close>

fun is_stage_call :: "event \<Rightarrow> bool" where
  "is_stage_call (Train j a b) = True"
| "is_stage_call (Increment j a b) = True"
| "is_stage_call e = False"

fun ev_increment :: "event \<Rightarrow> bool" where
  "ev_increment (Increment j a b) = True"
| "ev_increment e = False"

fun ev_index :: "event \<Rightarrow> nat" where
  "ev_index (Train j a b) = j"
| "ev_index (Increment j a b) = j"
| "ev_index e = 0"

fun ev_input :: "event \<Rightarrow> shape list list" where
  "ev_input (Train j a b) = a"
| "ev_input (Increment j a b) = a"
| "ev_input e = []"

fun ev_output :: "event \<Rightarrow> shape list list" where
  "ev_output (Train j a b) = b"
| "ev_output (Increment j a b) = b"
| "ev_output e = []"

definition stage_event :: "bool \<Rightarrow> nat \<Rightarrow> shape list list \<Rightarrow> shape list list \<Rightarrow> event" where
  "stage_event increment j a b = (if increment then Increment j a b else Train j a b)"

definition stage_calls :: "event list \<Rightarrow> (bool \<times> nat) list" where
  "stage_calls evs = map (\<lambda>e. (ev_increment e, ev_index e)) (filter is_stage_call evs)"

fun is_compute_features :: "event \<Rightarrow> bool" where
  "is_compute_features (ComputeFeatures j f) = True"
| "is_compute_features e = False"

text \<open>
  What every part of the orchestrator keeps between two states: the log only grows, the
  configured ladder stays, and a reference shape that is set stays as it is.
\<close>

definition evolves :: "('px, 'alg, 'rng) state \<Rightarrow> ('px, 'alg, 'rng) state \<Rightarrow> bool" where
  "evolves s s' \<longleftrightarrow>
     prefix (log s) (log s')
     \<and> features s' = features s \<and> scales s' = scales s \<and> diagonal s' = diagonal s
     \<and> length (algorithms s') = length (algorithms s)
     \<and> (reference_shape s \<noteq> None \<longrightarrow> reference_shape s' = reference_shape s)"

text \<open>The stage method that a batch calls: \<^verbatim>\<open>increment\<close> or \<^verbatim>\<open>train\<close>.\<close>

definition stage :: "('px, 'alg, 'rng) env \<Rightarrow> bool \<Rightarrow> 'alg \<Rightarrow> 'px image list \<Rightarrow> shape list \<Rightarrow> shape list list \<Rightarrow> 'alg \<times> shape list list" where
  "stage E inc = (if inc then alg_increment E else alg_train E)"

text \<open>The test of line 173.\<close>

definition recompute :: "('px, 'alg, 'rng) state \<Rightarrow> nat \<Rightarrow> bool" where
  "recompute s j \<longleftrightarrow> j = 0 \<or> features s ! j \<noteq> features s ! (j - 1)"

text \<open>A step that touches neither the images, the random source, the count nor the reference shape.\<close>

definition quiet :: "('px, 'alg, 'rng) state \<Rightarrow> ('px, 'alg, 'rng) state \<Rightarrow> bool" where
  "quiet s s' \<longleftrightarrow> evolves s s' \<and> heap s' = heap s \<and> rng s' = rng s
     \<and> n_perturbations s' = n_perturbations s \<and> reference_shape s' = reference_shape s"

definition stage_result :: "('px, 'alg, 'rng) env \<Rightarrow> bool \<Rightarrow> event \<Rightarrow> bool" where
  "stage_result E inc e \<longleftrightarrow>
     (\<exists>a imgs shps. ev_output e = snd (stage E inc a imgs shps (ev_input e)))"

fun run_from ::
  "('px, 'alg, 'rng) env \<Rightarrow> bool \<Rightarrow> rat list \<Rightarrow> nat list \<Rightarrow> shape list list \<Rightarrow> event list
     \<Rightarrow> shape list list \<Rightarrow> bool" where
  "run_from E inc scs [] cs evs fin = (evs = [] \<and> fin = cs)"
| "run_from E inc scs (j # js) cs [] fin = False"
| "run_from E inc scs (j # js) cs (e # es) fin =
     (e = stage_event inc j cs (ev_output e) \<and> stage_result E inc e
      \<and> run_from E inc scs js
            (if j \<noteq> length scs - 1
             then map (map (scale_apply (scs ! (j + 1) / scs ! j))) (ev_output e)
             else ev_output e) es fin)"

definition first_scaled ::
  "('px, 'alg, 'rng) env \<Rightarrow> ('px, 'alg, 'rng) state \<Rightarrow> addr list \<Rightarrow> 'px image list" where
  "first_scaled E s b =
     (let fi = compute_features E (map (heap s) b) (features s ! 0)
      in if scales s ! 0 \<noteq> 1 then scale_images E fi (scales s ! 0) else fi)"

text \<open>
  Modelled from the spec: the stage class (\<^verbatim>\<open>menpofit.sdm.algorithm\<close>) is not part of the
  source at hand. Its contract is that \<^verbatim>\<open>train\<close> and \<^verbatim>\<open>increment\<close> replace the
  current shape estimates "with the cascade-corrected estimates at that scale, same
  shape/count": as many estimates for every image as were given.
\<close>

definition count_preserving :: "('px, 'alg, 'rng) env \<Rightarrow> bool" where
  "count_preserving E \<longleftrightarrow>
     (\<forall>a imgs shps cs. map length (snd (alg_train E a imgs shps cs)) = map length cs)
   \<and> (\<forall>a imgs shps cs. map length (snd (alg_increment E a imgs shps cs)) = map length cs)"

fun is_compute_reference_shape :: "event \<Rightarrow> bool" where
  "is_compute_reference_shape (ComputeReferenceShape a b) = True"
| "is_compute_reference_shape e = False"

fun is_rescale :: "event \<Rightarrow> bool" where
  "is_rescale (RescaleToReference a b c) = True"
| "is_rescale e = False"

definition is_prepare_event :: "event \<Rightarrow> bool" where
  "is_prepare_event e \<longleftrightarrow>
     is_warning e \<or> is_compute_reference_shape e \<or> is_rescale e \<or> is_perturb e"

definition emits ::
  "(event \<Rightarrow> bool) \<Rightarrow> ('px, 'alg, 'rng) state \<Rightarrow> ('px, 'alg, 'rng) state \<Rightarrow> bool" where
  "emits K s s' \<longleftrightarrow> evolves s s' \<and> list_all K (new_events s s')"

definition is_reference_event :: "event \<Rightarrow> bool" where
  "is_reference_event e \<longleftrightarrow> is_compute_reference_shape e \<or> e = Warn NoReferenceShapeWarning"

definition is_scale_event :: "event \<Rightarrow> bool" where
  "is_scale_event e \<longleftrightarrow> \<not> is_prepare_event e"

definition example_trained :: "(unit, nat, nat) state" where
  "example_trained =
     snd (sdf_train example_env [0, 1, 2] None None False (Some 2) (example_state [] 3))"

definition keys_of :: "('px, 'alg, 'rng) state \<Rightarrow> addr \<Rightarrow> string set" where
  "keys_of s a = set (group_labels (landmarks (heap s a)))"

definition generated_keys :: "string \<Rightarrow> nat list \<Rightarrow> string list" where
  "generated_keys bb_group js = map (\<lambda>j. bb_group @ ''_'' @ str_nat j) js"

section \<open>Properties\<close>

subsection \<open>Fields that a state update leaves alone\<close>

lemma emit_fields [simp]:
  "log (emit e s) = log s @ [e]"
  "heap (emit e s) = heap s"
  "rng (emit e s) = rng s"
  "reference_shape (emit e s) = reference_shape s"
  "n_perturbations (emit e s) = n_perturbations s"
  "algorithms (emit e s) = algorithms s"
  "features (emit e s) = features s"
  "scales (emit e s) = scales s"
  "diagonal (emit e s) = diagonal s"
  by (simp_all add: emit_def)

lemma set_landmarks_fields [simp]:
  "log (set_landmarks i k v s) = log s"
  "rng (set_landmarks i k v s) = rng s"
  "reference_shape (set_landmarks i k v s) = reference_shape s"
  "n_perturbations (set_landmarks i k v s) = n_perturbations s"
  "algorithms (set_landmarks i k v s) = algorithms s"
  "features (set_landmarks i k v s) = features s"
  "scales (set_landmarks i k v s) = scales s"
  "diagonal (set_landmarks i k v s) = diagonal s"
  by (simp_all add: set_landmarks_def)

lemma n_scales_simps [simp]:
  "n_scales (emit e s) = n_scales s"
  "n_scales (set_landmarks i k v s) = n_scales s"
  by (simp_all add: n_scales_def)

lemma new_events_self [simp]: "new_events s s = []"
  by (simp add: new_events_def)

lemma new_events_append: "log s' = log s @ evs \<Longrightarrow> new_events s s' = evs"
  by (simp add: new_events_def)

subsection \<open>Reconciling the perturbation count with supplied boxes\<close>

text \<open>
  Claim C3. When the first image of the batch carries \<open>m > 1\<close> boxes under the namespace,
  lines 125-154 raise nothing, generate no perturbation and leave the images and the
  random source alone, so that the keys grabbed again at lines 158-159 are the \<open>m\<close>
  supplied ones; the stored count becomes \<open>m\<close>; the only warning is the reset warning,
  emitted once when \<open>m\<close> differs from the stored count and not at all when it agrees, in
  which case the state is unchanged.
\<close>

theorem reconcile_supplied_boxes:
  assumes "index image_batch 0 = Inr i0"
    and "m = int (length (keys_matching E (landmarks (heap s i0)) (bb_pattern bb_group)))"
    and "1 < m"
    and "generate_perturbations E grp bb_group image_batch s = (err, s')"
  shows "err = None
    \<and> filter is_warning (new_events s s') =
        (if m \<noteq> n_perturbations s
         then [Warn (NPerturbationsResetWarning (n_perturbations s) m)] else [])
    \<and> n_perturbations s' = m
    \<and> filter is_perturb (new_events s s') = []
    \<and> heap s' = heap s \<and> rng s' = rng s
    \<and> keys_matching E (landmarks (heap s' i0)) (bb_pattern bb_group) =
        keys_matching E (landmarks (heap s i0)) (bb_pattern bb_group)
    \<and> (m = n_perturbations s \<longrightarrow> s' = s)"
  using assms
  by (auto simp: generate_perturbations_def Let_def new_events_def split: if_splits)

theorem reconcile_supplied_boxes_witness:
  "index [0, 1 :: nat] 0 = Inr 0
   \<and> (2 :: int) = int (length (keys_matching example_env
          (landmarks (heap (example_state [''bb_0'', ''bb_1''] 3) 0)) (bb_pattern ''bb'')))
   \<and> (1 :: int) < 2
   \<and> filter is_warning (new_events (example_state [''bb_0'', ''bb_1''] 3)
        (snd (generate_perturbations example_env ''PTS'' ''bb'' [0, 1]
               (example_state [''bb_0'', ''bb_1''] 3)))) =
        [Warn (NPerturbationsResetWarning 3 2)]
   \<and> n_perturbations (snd (generate_perturbations example_env ''PTS'' ''bb'' [0, 1]
               (example_state [''bb_0'', ''bb_1''] 3))) = 2"
proof -
  have a: "index [0, 1 :: nat] 0 = Inr 0" by code_simp
  have b: "(2 :: int) = int (length (keys_matching example_env
          (landmarks (heap (example_state [''bb_0'', ''bb_1''] 3) 0)) (bb_pattern ''bb'')))"
    by code_simp
  have c: "(1 :: int) < 2" by simp
  have d: "n_perturbations (example_state [''bb_0'', ''bb_1''] 3) = 3" by code_simp
  from reconcile_supplied_boxes [OF a b c surjective_pairing] a b c d
  show ?thesis by simp
qed

subsection \<open>The log and the configuration through the scale loop\<close>


lemma evolves_refl [simp]: "evolves s s"
  by (simp add: evolves_def)

lemma evolves_trans: "evolves s s' \<Longrightarrow> evolves s' s'' \<Longrightarrow> evolves s s''"
  unfolding evolves_def by (auto intro: prefix_order.trans)

lemma evolves_log: "evolves s s' \<Longrightarrow> log s' = log s @ new_events s s'"
  by (auto simp: evolves_def new_events_def prefix_def)

lemma new_events_trans:
  "evolves s s' \<Longrightarrow> evolves s' s'' \<Longrightarrow> new_events s s'' = new_events s s' @ new_events s' s''"
  by (auto simp: evolves_def new_events_def prefix_def)

lemma evolves_emit [simp]: "evolves s (emit e s)"
  by (simp add: evolves_def)

lemma evolves_set_landmarks [simp]: "evolves s (set_landmarks i k v s)"
  by (simp add: evolves_def)

lemma evolves_n_scales: "evolves s s' \<Longrightarrow> n_scales s' = n_scales s"
  by (simp add: evolves_def n_scales_def)

lemma new_events_emit [simp]: "new_events s (emit e s) = [e]"
  by (simp add: new_events_def)

lemma new_events_set_landmarks [simp]: "new_events s (set_landmarks i k v s) = []"
  by (simp add: new_events_def)


lemma handle_features_eq:
  "handle_features E b j fi s =
     (if j < length (features s) then
        (if j = 0 \<or> features s ! j \<noteq> features s ! (j - 1)
         then (Inr (compute_features E (map (heap s) b) (features s ! j)),
               emit (ComputeFeatures j (features s ! j)) s)
         else (Inr fi, s))
      else (Inl IndexError, s))"
  by (auto simp: handle_features_def index_def Let_def)

lemma handle_scales_eq:
  "handle_scales E j fi s =
     (if j < length (scales s) then
        (if scales s ! j \<noteq> 1
         then (Inr (scale_images E fi (scales s ! j)), emit (ScaleImages j (scales s ! j)) s)
         else (Inr fi, s))
      else (Inl IndexError, s))"
  by (auto simp: handle_scales_def index_def)

lemma run_algorithm_eq:
  "run_algorithm E inc j imgs shps cs s =
     (if j < length (algorithms s) then
        (let res = (if inc then alg_increment E else alg_train E) (algorithms s ! j) imgs shps cs
         in (Inr (snd res), emit (stage_event inc j cs (snd res))
                               (s\<lparr>algorithms := (algorithms s)[j := fst res]\<rparr>)))
      else (Inl IndexError, s))"
  by (auto simp: run_algorithm_def index_def stage_event_def Let_def split: prod.splits)

lemma scale_to_next_eq:
  "j < n_scales s \<Longrightarrow> scale_to_next j cs s =
     (if j \<noteq> n_scales s - 1 then
        (if scales s ! j = 0 then (Inl ZeroDivisionError, s)
         else (Inr (map (map (scale_apply (scales s ! (j + 1) / scales s ! j))) cs),
               emit (ScaleShapes j (scales s ! (j + 1) / scales s ! j)) s))
      else (Inr cs, s))"
  by (auto simp: scale_to_next_def index_def n_scales_def)

lemma evolves_algorithms [simp]: "evolves s (s\<lparr>algorithms := (algorithms s)[j := a]\<rparr>)"
  by (simp add: evolves_def)

lemma new_events_algorithms [simp]: "new_events s (s\<lparr>algorithms := x\<rparr>) = []"
  by (simp add: new_events_def)


lemma quiet_refl [simp]: "quiet s s"
  by (simp add: quiet_def)

lemma quiet_trans: "quiet s s' \<Longrightarrow> quiet s' s'' \<Longrightarrow> quiet s s''"
  by (auto simp: quiet_def intro: evolves_trans)

lemma quiet_emit [simp]: "quiet s (emit e s)"
  by (simp add: quiet_def)

lemma handle_features_quiet: "handle_features E b j fi s = (res, s') \<Longrightarrow> quiet s s'"
  by (auto simp: handle_features_eq split: if_splits)

lemma handle_scales_quiet: "handle_scales E j fi s = (res, s') \<Longrightarrow> quiet s s'"
  by (auto simp: handle_scales_eq split: if_splits)

lemma run_algorithm_quiet: "run_algorithm E inc j imgs shps cs s = (res, s') \<Longrightarrow> quiet s s'"
  by (auto simp: run_algorithm_eq quiet_def evolves_def Let_def split: if_splits)

lemma scale_to_next_quiet: "scale_to_next j cs s = (res, s') \<Longrightarrow> quiet s s'"
  by (auto simp: scale_to_next_def split: if_splits sum.splits)

lemma scale_level_quiet:
  "scale_level E grp r keys b inc j fi cs s = (err, fi', cs', s') \<Longrightarrow> quiet s s'"
  unfolding scale_level_def
  by (auto split: prod.splits sum.splits
      dest!: handle_features_quiet handle_scales_quiet run_algorithm_quiet scale_to_next_quiet
      intro: quiet_trans)


lemma stage_event_simps [simp]:
  "is_stage_call (stage_event inc j a b)"
  "ev_increment (stage_event inc j a b) = inc"
  "ev_index (stage_event inc j a b) = j"
  "ev_input (stage_event inc j a b) = a"
  "ev_output (stage_event inc j a b) = b"
  "\<not> is_compute_features (stage_event inc j a b)"
  "\<not> is_perturb (stage_event inc j a b)"
  "\<not> is_warning (stage_event inc j a b)"
  by (simp_all add: stage_event_def)

lemma scale_level_NoneE:
  assumes "scale_level E grp r keys b inc j fi cs s = (None, fi', cs', s')"
  obtains s1 scaled s2 shps cs0 cs1 s3 where
    "handle_features E b j fi s = (Inr fi', s1)"
    "handle_scales E j fi' s1 = (Inr scaled, s2)"
    "collect (\<lambda>i. lms (landmarks i) grp) scaled = Inr shps"
    "initial_shapes E r keys j scaled cs = Inr cs0"
    "run_algorithm E inc j scaled shps cs0 s2 = (Inr cs1, s3)"
    "scale_to_next j cs1 s3 = (Inr cs', s')"
  using assms unfolding scale_level_def
  by (auto split: prod.splits sum.splits)

lemma scale_level_success:
  assumes "scale_level E grp r keys b inc j fi cs s = (None, fi', cs', s')"
  shows "\<exists>scaled shps cs_in cs_out.
     j < n_scales s
   \<and> new_events s s' =
        (if recompute s j then [ComputeFeatures j (features s ! j)] else [])
        @ (if scales s ! j \<noteq> 1 then [ScaleImages j (scales s ! j)] else [])
        @ [stage_event inc j cs_in cs_out]
        @ (if j \<noteq> n_scales s - 1 then [ScaleShapes j (scales s ! (j + 1) / scales s ! j)] else [])
   \<and> fi' = (if recompute s j then compute_features E (map (heap s) b) (features s ! j) else fi)
   \<and> scaled = (if scales s ! j \<noteq> 1 then scale_images E fi' (scales s ! j) else fi')
   \<and> collect (\<lambda>i. lms (landmarks i) grp) scaled = Inr shps
   \<and> (if j = 0 then (\<exists>ps. extract_perturbations E r keys scaled = Inr ps \<and> cs_in = cs @ ps)
       else cs_in = cs)
   \<and> cs_out = snd (stage E inc (algorithms s ! j) scaled shps cs_in)
   \<and> cs' = (if j \<noteq> n_scales s - 1
            then map (map (scale_apply (scales s ! (j + 1) / scales s ! j))) cs_out else cs_out)"
proof -
  from assms obtain s1 scaled s2 shps cs0 cs1 s3 where
    hf: "handle_features E b j fi s = (Inr fi', s1)" and
    hs: "handle_scales E j fi' s1 = (Inr scaled, s2)" and
    co: "collect (\<lambda>i. lms (landmarks i) grp) scaled = Inr shps" and
    c0: "initial_shapes E r keys j scaled cs = Inr cs0" and
    ra: "run_algorithm E inc j scaled shps cs0 s2 = (Inr cs1, s3)" and
    sn: "scale_to_next j cs1 s3 = (Inr cs', s')"
    by (rule scale_level_NoneE)
  from hf have f1: "j < length (features s)"
    and f2: "fi' = (if recompute s j then compute_features E (map (heap s) b) (features s ! j) else fi)"
    and f3: "s1 = (if recompute s j then emit (ComputeFeatures j (features s ! j)) s else s)"
    by (auto simp: handle_features_eq recompute_def split: if_splits)
  from hs have g1: "j < length (scales s1)"
    and g2: "scaled = (if scales s1 ! j \<noteq> 1 then scale_images E fi' (scales s1 ! j) else fi')"
    and g3: "s2 = (if scales s1 ! j \<noteq> 1 then emit (ScaleImages j (scales s1 ! j)) s1 else s1)"
    by (auto simp: handle_scales_eq split: if_splits)
  from ra have r1: "j < length (algorithms s2)"
    and r2: "cs1 = snd (stage E inc (algorithms s2 ! j) scaled shps cs0)"
    and r3: "s3 = emit (stage_event inc j cs0 cs1)
                    (s2\<lparr>algorithms := (algorithms s2)[j := fst (stage E inc (algorithms s2 ! j) scaled shps cs0)]\<rparr>)"
    by (auto simp: run_algorithm_eq stage_def Let_def split: if_splits)
  have sc1: "scales s1 = scales s" "log s1 = log s @ (if recompute s j then [ComputeFeatures j (features s ! j)] else [])"
     "algorithms s1 = algorithms s"
    using f3 by auto
  have sc2: "scales s2 = scales s" "algorithms s2 = algorithms s"
    "log s2 = log s1 @ (if scales s ! j \<noteq> 1 then [ScaleImages j (scales s ! j)] else [])"
    using g3 sc1 by auto
  have sc3: "scales s3 = scales s" "log s3 = log s2 @ [stage_event inc j cs0 cs1]"
    using r3 sc2 by auto
  have jn: "j < n_scales s3" "n_scales s3 = n_scales s"
    using g1 sc1 sc3 by (auto simp: n_scales_def)
  from sn have sn': "(if j \<noteq> n_scales s - 1 then
        (if scales s ! j = 0 then (Inl ZeroDivisionError, s3)
         else (Inr (map (map (scale_apply (scales s ! (j + 1) / scales s ! j))) cs1),
               emit (ScaleShapes j (scales s ! (j + 1) / scales s ! j)) s3))
      else (Inr cs1, s3)) = (Inr cs', s')"
    by (simp only: scale_to_next_eq [OF jn(1)] jn(2) sc3(1))
  from sn' have n1: "cs' = (if j \<noteq> n_scales s - 1
            then map (map (scale_apply (scales s ! (j + 1) / scales s ! j))) cs1 else cs1)"
    and n3: "log s' = log s3 @ (if j \<noteq> n_scales s - 1 then [ScaleShapes j (scales s ! (j + 1) / scales s ! j)] else [])"
    by (auto split: if_splits)
  have ne: "new_events s s' =
        (if recompute s j then [ComputeFeatures j (features s ! j)] else [])
        @ (if scales s ! j \<noteq> 1 then [ScaleImages j (scales s ! j)] else [])
        @ [stage_event inc j cs0 cs1]
        @ (if j \<noteq> n_scales s - 1 then [ScaleShapes j (scales s ! (j + 1) / scales s ! j)] else [])"
    by (rule new_events_append) (simp only: n3 sc3 sc2 sc1 append_assoc)
  have ci: "if j = 0 then (\<exists>ps. extract_perturbations E r keys scaled = Inr ps \<and> cs0 = cs @ ps)
       else cs0 = cs"
    using c0 by (auto simp: initial_shapes_def split: if_splits sum.splits)
  have g2': "scaled = (if scales s ! j \<noteq> 1 then scale_images E fi' (scales s ! j) else fi')"
    using g2 sc1 by simp
  have r2': "cs1 = snd (stage E inc (algorithms s ! j) scaled shps cs0)"
    using r2 sc2 by simp
  have jn': "j < n_scales s"
    using jn by simp
  show ?thesis
    using jn' ne f2 g2' co ci r2' n1 by blast
qed

subsection \<open>Stage calls of the scale loop; events of the preparation\<close>

lemma scale_loop_ConsE:
  assumes "scale_loop E grp r keys b inc (j # js) fi cs s = (None, fin, s')"
  obtains fi1 cs1 s1 where
    "scale_level E grp r keys b inc j fi cs s = (None, fi1, cs1, s1)"
    "scale_loop E grp r keys b inc js fi1 cs1 s1 = (None, fin, s')"
  using assms by (auto split: prod.splits option.splits)

lemma quiet_evolves: "quiet s s' \<Longrightarrow> evolves s s'"
  by (simp add: quiet_def)

lemma quiet_scales: "quiet s s' \<Longrightarrow> scales s' = scales s"
  by (simp add: quiet_def evolves_def)

lemma quiet_features: "quiet s s' \<Longrightarrow> features s' = features s"
  by (simp add: quiet_def evolves_def)

lemma scale_loop_quiet:
  "scale_loop E grp r keys b inc js fi cs s = (err, fin, s') \<Longrightarrow> quiet s s'"
proof (induction js arbitrary: fi cs s)
  case Nil
  then show ?case by simp
next
  case (Cons j js)
  show ?case
  proof (cases "scale_level E grp r keys b inc j fi cs s")
    case (fields e1 fi1 cs1 s1)
    then have q1: "quiet s s1" by (rule scale_level_quiet)
    show ?thesis
    proof (cases e1)
      case None
      with fields Cons.prems have "scale_loop E grp r keys b inc js fi1 cs1 s1 = (err, fin, s')"
        by simp
      then have "quiet s1 s'" by (rule Cons.IH)
      with q1 show ?thesis by (rule quiet_trans)
    next
      case (Some e)
      with fields Cons.prems have "s' = s1" by simp
      with q1 show ?thesis by simp
    qed
  qed
qed

lemma scale_level_stage_events:
  assumes "scale_level E grp r keys b inc j fi cs s = (None, fi', cs', s')"
  shows "\<exists>e. filter is_stage_call (new_events s s') = [e]
     \<and> e = stage_event inc j (ev_input e) (ev_output e) \<and> stage_result E inc e
     \<and> (j \<noteq> 0 \<longrightarrow> ev_input e = cs)
     \<and> cs' = (if j \<noteq> length (scales s) - 1
            then map (map (scale_apply (scales s ! (j + 1) / scales s ! j))) (ev_output e)
            else ev_output e)"
proof -
  from scale_level_success [OF assms] obtain scaled shps cs_in cs_out where
    ne: "new_events s s' =
        (if recompute s j then [ComputeFeatures j (features s ! j)] else [])
        @ (if scales s ! j \<noteq> 1 then [ScaleImages j (scales s ! j)] else [])
        @ [stage_event inc j cs_in cs_out]
        @ (if j \<noteq> n_scales s - 1 then [ScaleShapes j (scales s ! (j + 1) / scales s ! j)] else [])"
    and ci: "if j = 0 then (\<exists>ps. extract_perturbations E r keys scaled = Inr ps \<and> cs_in = cs @ ps)
       else cs_in = cs"
    and co: "cs_out = snd (stage E inc (algorithms s ! j) scaled shps cs_in)"
    and c': "cs' = (if j \<noteq> n_scales s - 1
            then map (map (scale_apply (scales s ! (j + 1) / scales s ! j))) cs_out else cs_out)"
    by blast
  have f: "filter is_stage_call (new_events s s') = [stage_event inc j cs_in cs_out]"
    by (simp add: ne)
  have sr: "stage_result E inc (stage_event inc j cs_in cs_out)"
    unfolding stage_result_def using co by auto
  show ?thesis
    using f sr ci c' by (auto simp: n_scales_def split: if_splits)
qed

lemma scale_loop_run:
  "scale_loop E grp r keys b inc js fi cs s = (None, fin, s') \<Longrightarrow> 0 \<notin> set js \<Longrightarrow>
     run_from E inc (scales s) js cs (filter is_stage_call (new_events s s')) fin"
proof (induction js arbitrary: fi cs s)
  case Nil
  then show ?case by simp
next
  case (Cons j js)
  from Cons.prems(1) obtain fi1 cs1 s1 where
    lv: "scale_level E grp r keys b inc j fi cs s = (None, fi1, cs1, s1)" and
    lp: "scale_loop E grp r keys b inc js fi1 cs1 s1 = (None, fin, s')"
    by (rule scale_loop_ConsE)
  from lv have q1: "quiet s s1" by (rule scale_level_quiet)
  from lp have q2: "quiet s1 s'" by (rule scale_loop_quiet)
  have ne: "new_events s s' = new_events s s1 @ new_events s1 s'"
    using q1 q2 by (simp add: new_events_trans quiet_evolves)
  from Cons.prems(2) have j0: "j \<noteq> 0" and js0: "0 \<notin> set js" by auto
  from scale_level_stage_events [OF lv] j0 obtain e where
    e1: "filter is_stage_call (new_events s s1) = [e]" and
    e2: "e = stage_event inc j cs (ev_output e)" and
    e3: "stage_result E inc e" and
    e4: "cs1 = (if j \<noteq> length (scales s) - 1
            then map (map (scale_apply (scales s ! (j + 1) / scales s ! j))) (ev_output e)
            else ev_output e)"
    by metis
  from Cons.IH [OF lp js0]
  have ih: "run_from E inc (scales s) js cs1 (filter is_stage_call (new_events s1 s')) fin"
    by (simp add: quiet_scales [OF q1])
  show ?case
    using e2 e3 ih [unfolded e4] by (auto simp: ne e1 split: if_splits)
qed

lemma scale_level_stage_events0:
  assumes "scale_level E grp r keys b inc 0 fi cs s = (None, fi', cs', s')"
  shows "\<exists>e ps. filter is_stage_call (new_events s s') = [e]
     \<and> extract_perturbations E r keys (first_scaled E s b) = Inr ps
     \<and> e = stage_event inc 0 (cs @ ps) (ev_output e) \<and> stage_result E inc e
     \<and> cs' = (if 0 \<noteq> length (scales s) - 1
            then map (map (scale_apply (scales s ! (0 + 1) / scales s ! 0))) (ev_output e)
            else ev_output e)"
proof -
  from scale_level_success [OF assms] obtain scaled shps cs_in cs_out where
    ne: "new_events s s' =
        (if recompute s 0 then [ComputeFeatures 0 (features s ! 0)] else [])
        @ (if scales s ! 0 \<noteq> 1 then [ScaleImages 0 (scales s ! 0)] else [])
        @ [stage_event inc 0 cs_in cs_out]
        @ (if 0 \<noteq> n_scales s - 1 then [ScaleShapes 0 (scales s ! (0 + 1) / scales s ! 0)] else [])"
    and fi: "fi' = (if recompute s 0 then compute_features E (map (heap s) b) (features s ! 0) else fi)"
    and sc: "scaled = (if scales s ! 0 \<noteq> 1 then scale_images E fi' (scales s ! 0) else fi')"
    and ci: "if (0::nat) = 0 then (\<exists>ps. extract_perturbations E r keys scaled = Inr ps \<and> cs_in = cs @ ps)
       else cs_in = cs"
    and co: "cs_out = snd (stage E inc (algorithms s ! 0) scaled shps cs_in)"
    and c': "cs' = (if 0 \<noteq> n_scales s - 1
            then map (map (scale_apply (scales s ! (0 + 1) / scales s ! 0))) cs_out else cs_out)"
    by blast
  have f: "filter is_stage_call (new_events s s') = [stage_event inc 0 cs_in cs_out]"
    by (simp add: ne)
  have sr: "stage_result E inc (stage_event inc 0 cs_in cs_out)"
    unfolding stage_result_def using co by auto
  have fs: "scaled = first_scaled E s b"
    using fi sc by (simp add: first_scaled_def recompute_def Let_def)
  from ci obtain ps where ps: "extract_perturbations E r keys scaled = Inr ps" "cs_in = cs @ ps"
    by auto
  show ?thesis
    using f sr ps c' fs by (auto simp: n_scales_def split: if_splits)
qed

lemma scale_loop_run0:
  assumes "scale_loop E grp r keys b inc (0 # js) fi cs s = (None, fin, s')" and "0 \<notin> set js"
  shows "\<exists>ps. extract_perturbations E r keys (first_scaled E s b) = Inr ps
     \<and> run_from E inc (scales s) (0 # js) (cs @ ps) (filter is_stage_call (new_events s s')) fin"
proof -
  from assms(1) obtain fi1 cs1 s1 where
    lv: "scale_level E grp r keys b inc 0 fi cs s = (None, fi1, cs1, s1)" and
    lp: "scale_loop E grp r keys b inc js fi1 cs1 s1 = (None, fin, s')"
    by (rule scale_loop_ConsE)
  from lv have q1: "quiet s s1" by (rule scale_level_quiet)
  from lp have q2: "quiet s1 s'" by (rule scale_loop_quiet)
  have ne: "new_events s s' = new_events s s1 @ new_events s1 s'"
    using q1 q2 by (simp add: new_events_trans quiet_evolves)
  from scale_level_stage_events0 [OF lv] obtain e ps where
    e1: "filter is_stage_call (new_events s s1) = [e]" and
    e0: "extract_perturbations E r keys (first_scaled E s b) = Inr ps" and
    e2: "e = stage_event inc 0 (cs @ ps) (ev_output e)" and
    e3: "stage_result E inc e" and
    e4: "cs1 = (if 0 \<noteq> length (scales s) - 1
            then map (map (scale_apply (scales s ! (0 + 1) / scales s ! 0))) (ev_output e)
            else ev_output e)"
    by blast
  from scale_loop_run [OF lp assms(2)]
  have ih: "run_from E inc (scales s) js cs1 (filter is_stage_call (new_events s1 s')) fin"
    by (simp add: quiet_scales [OF q1])
  have "run_from E inc (scales s) (0 # js) (cs @ ps) (filter is_stage_call (new_events s s')) fin"
    using e2 e3 ih [unfolded e4] by (auto simp: ne e1 split: if_splits)
  with e0 show ?thesis by blast
qed

lemma run_from_calls:
  "run_from E inc scs js cs evs fin \<Longrightarrow> stage_calls evs = map (Pair inc) js"
proof (induction js arbitrary: cs evs)
  case Nil
  then show ?case by (simp add: stage_calls_def)
next
  case (Cons j js)
  then obtain e es where evs: "evs = e # es" by (cases evs) auto
  with Cons.prems have e: "e = stage_event inc j cs (ev_output e)"
    and r: "run_from E inc scs js
            (if j \<noteq> length scs - 1
             then map (map (scale_apply (scs ! (j + 1) / scs ! j))) (ev_output e)
             else ev_output e) es fin"
    by auto
  from Cons.IH [OF r] have "stage_calls es = map (Pair inc) js" .
  moreover have "is_stage_call e" "ev_increment e = inc" "ev_index e = j"
    by (subst e, simp)+
  ultimately show ?case
    by (simp add: evs stage_calls_def)
qed

lemma emits_refl [simp]: "emits K s s"
  by (simp add: emits_def)

lemma emits_trans:
  assumes "emits K s s'" and "emits K s' s''"
  shows "emits K s s''"
proof -
  from assms have e: "evolves s s'" "evolves s' s''"
    by (simp_all add: emits_def)
  then have "new_events s s'' = new_events s s' @ new_events s' s''"
    by (rule new_events_trans)
  with assms e show ?thesis
    by (auto simp: emits_def intro: evolves_trans)
qed

lemma emits_emit [simp]: "emits K s (emit e s) \<longleftrightarrow> K e"
  by (simp add: emits_def)

lemma emits_set_landmarks [simp]: "emits K s (set_landmarks i k v s)"
  by (simp add: emits_def)

lemma emits_evolves: "emits K s s' \<Longrightarrow> evolves s s'"
  by (simp add: emits_def)

lemma emits_filter:
  "emits K s s' \<Longrightarrow> (\<And>e. K e \<Longrightarrow> \<not> P e) \<Longrightarrow> filter P (new_events s s') = []"
  by (auto simp: emits_def list_all_iff filter_empty_conv)

lemma is_prepare_event_simps [simp]:
  "is_prepare_event (Warn w)"
  "is_prepare_event (ComputeReferenceShape a b)"
  "is_prepare_event (RescaleToReference c d f)"
  "is_prepare_event (Perturb g h)"
  "\<not> is_prepare_event (ComputeFeatures j k)"
  "\<not> is_prepare_event (ScaleImages j q)"
  "\<not> is_prepare_event (Train j x y)"
  "\<not> is_prepare_event (Increment j x y)"
  "\<not> is_prepare_event (ScaleShapes j q)"
  "\<not> is_prepare_event (stage_event inc j x y)"
  by (simp_all add: is_prepare_event_def stage_event_def)

lemma evolves_fields [simp]:
  "evolves s (s\<lparr>heap := h\<rparr>)"
  "evolves s (s\<lparr>rng := g\<rparr>)"
  "evolves s (s\<lparr>n_perturbations := n\<rparr>)"
  by (simp_all add: evolves_def)

lemma new_events_fields [simp]:
  "new_events s (s\<lparr>heap := h\<rparr>) = []"
  "new_events s (s\<lparr>rng := g\<rparr>) = []"
  "new_events s (s\<lparr>n_perturbations := n\<rparr>) = []"
  by (simp_all add: new_events_def)

lemma ensure_reference_shape_emits:
  "ensure_reference_shape E batched grp b s = (res, s') \<Longrightarrow> emits is_prepare_event s s'"
  by (auto simp: ensure_reference_shape_def Let_def emits_def evolves_def new_events_def
      split: option.splits sum.splits if_splits)

lemma rescale_emits: "rescale E grp r b s = (b', s') \<Longrightarrow> emits is_prepare_event s s'"
  by (auto simp: rescale_def Let_def emits_def evolves_def new_events_def split: prod.splits)

lemma attach_gt_bb_emits: "attach_gt_bb E grp b s = (err, s') \<Longrightarrow> emits K s s'"
proof (induction b arbitrary: s)
  case Nil
  then show ?case by simp
next
  case (Cons i rest)
  show ?case
  proof (cases "lms (landmarks (heap s i)) grp")
    case (Inl e)
    with Cons.prems show ?thesis by simp
  next
    case (Inr gt_s)
    with Cons.prems have
      "attach_gt_bb E grp rest (set_landmarks i (''__gt_bb_'' @ ''0'') (bounding_box E gt_s) s) = (err, s')"
      by simp
    from Cons.IH [OF this] show ?thesis
      by (rule emits_trans [rotated]) simp
  qed
qed

lemma resolve_bb_group_emits:
  "resolve_bb_group E grp bbg b s = (res, s') \<Longrightarrow> emits K s s'"
  by (auto simp: resolve_bb_group_def split: option.splits prod.splits dest: attach_gt_bb_emits)

lemma perturb_image_emits:
  assumes K: "\<And>a b. K (Perturb a b)"
  shows "perturb_image E grp bb_group key0 i js s = (err, s') \<Longrightarrow> emits K s s'"
proof (induction js arbitrary: s)
  case Nil
  then show ?case by simp
next
  case (Cons j js)
  show ?case
  proof (cases "lms (landmarks (heap s i)) grp")
    case (Inl e)
    with Cons.prems show ?thesis by simp
  next
    case g: (Inr g)
    show ?thesis
    proof (cases "lms (landmarks (heap s i)) key0")
      case (Inl e)
      with g Cons.prems show ?thesis by simp
    next
      case (Inr bb)
      obtain p_s r' where p: "perturb_from_bounding_box E (rng s) (bounding_box E g) bb = (p_s, r')"
        by (cases "perturb_from_bounding_box E (rng s) (bounding_box E g) bb")
      let ?s1 = "set_landmarks i (bb_group @ ''_'' @ str_nat j) p_s
                  (emit (Perturb (bounding_box E g) bb) (s\<lparr>rng := r'\<rparr>))"
      from g Inr p Cons.prems have "perturb_image E grp bb_group key0 i js ?s1 = (err, s')"
        by simp
      then have "emits K ?s1 s'" by (rule Cons.IH)
      moreover have "emits K s ?s1"
        by (simp add: emits_def evolves_def new_events_def set_landmarks_def emit_def K)
      ultimately show ?thesis by (rule emits_trans [rotated])
    qed
  qed
qed

lemma perturb_images_emits:
  assumes K: "\<And>a b. K (Perturb a b)"
  shows "perturb_images E grp bb_group key0 b s = (err, s') \<Longrightarrow> emits K s s'"
proof (induction b arbitrary: s)
  case Nil
  then show ?case by simp
next
  case (Cons i rest)
  obtain e1 s1 where p: "perturb_image E grp bb_group key0 i [1 ..< nat (n_perturbations s)] s = (e1, s1)"
    by (cases "perturb_image E grp bb_group key0 i [1 ..< nat (n_perturbations s)] s")
  then have q1: "emits K s s1" by (rule perturb_image_emits [where K = K, OF K])
  show ?case
  proof (cases e1)
    case None
    with p Cons.prems have "perturb_images E grp bb_group key0 rest s1 = (err, s')" by simp
    then have "emits K s1 s'" by (rule Cons.IH)
    with q1 show ?thesis by (rule emits_trans)
  next
    case (Some e)
    with p Cons.prems have "s' = s1" by simp
    with q1 show ?thesis by simp
  qed
qed

lemma emits_warn_reset:
  "K e \<Longrightarrow> emits K s ((emit e s)\<lparr>n_perturbations := n\<rparr>)"
  by (simp add: emits_def evolves_def new_events_def)

lemma generate_perturbations_cases:
  assumes "generate_perturbations E grp bb_group b s = (err, s')"
  obtains (empty) "index b 0 = Inl IndexError" "s' = s"
  | (one) i0 key0 where "index b 0 = Inr i0"
      "keys_matching E (landmarks (heap s i0)) (bb_pattern bb_group) = [key0]"
      "perturb_images E grp bb_group key0 b s = (err, s')"
  | (reset) i0 where "index b 0 = Inr i0"
      "length (keys_matching E (landmarks (heap s i0)) (bb_pattern bb_group)) \<noteq> 1"
      "int (length (keys_matching E (landmarks (heap s i0)) (bb_pattern bb_group))) \<noteq> n_perturbations s"
      "err = None"
      "s' = (emit (Warn (NPerturbationsResetWarning (n_perturbations s)
                (int (length (keys_matching E (landmarks (heap s i0)) (bb_pattern bb_group)))))) s)
              \<lparr>n_perturbations := int (length (keys_matching E (landmarks (heap s i0)) (bb_pattern bb_group)))\<rparr>"
  | (agree) i0 where "index b 0 = Inr i0"
      "length (keys_matching E (landmarks (heap s i0)) (bb_pattern bb_group)) \<noteq> 1"
      "int (length (keys_matching E (landmarks (heap s i0)) (bb_pattern bb_group))) = n_perturbations s"
      "err = None" "s' = s"
proof (cases "index b 0")
  case (Inl e)
  then have "e = IndexError" by (auto simp: index_def split: if_splits)
  with Inl assms show ?thesis
    by (intro empty) (simp_all add: generate_perturbations_def)
next
  case (Inr i0)
  let ?keys = "keys_matching E (landmarks (heap s i0)) (bb_pattern bb_group)"
  show ?thesis
  proof (cases "length ?keys = 1")
    case True
    then obtain key0 where k: "?keys = [key0]"
      by (cases ?keys) auto
    with Inr assms have "perturb_images E grp bb_group key0 b s = (err, s')"
      by (simp add: generate_perturbations_def)
    with Inr k show ?thesis by (rule one)
  next
    case False
    show ?thesis
    proof (cases "int (length ?keys) = n_perturbations s")
      case True
      with False Inr assms show ?thesis
        by (intro agree [of i0]) (simp_all add: generate_perturbations_def Let_def)
    next
      case ne: False
      with False Inr assms show ?thesis
        by (intro reset [of i0]) (simp_all add: generate_perturbations_def Let_def)
    qed
  qed
qed

lemma generate_perturbations_emits:
  assumes "generate_perturbations E grp bb_group b s = (err, s')"
    and K: "\<And>a b. K (Perturb a b)" "\<And>a b. K (Warn (NPerturbationsResetWarning a b))"
  shows "emits K s s'"
  using assms(1)
proof (cases rule: generate_perturbations_cases)
  case empty
  then show ?thesis by simp
next
  case (one i0 key0)
  then show ?thesis by (auto dest: perturb_images_emits [where K = K, OF K(1)])
next
  case (reset i0)
  then show ?thesis by (simp add: emits_warn_reset K)
next
  case (agree i0)
  then show ?thesis by simp
qed

lemma prepare_batch_emits:
  "prepare_batch E grp_opt bbg batched b s = (res, s') \<Longrightarrow> emits is_prepare_event s s'"
  unfolding prepare_batch_def
  by (auto split: sum.splits prod.splits option.splits
      dest!: ensure_reference_shape_emits rescale_emits resolve_bb_group_emits [where K = is_prepare_event]
             generate_perturbations_emits [where K = is_prepare_event]
      intro: emits_trans)

subsection \<open>Train on the first batch, increment afterwards\<close>

lemma train_batch_NoneE:
  assumes "train_batch E grp_opt bbg batched inc b s = (None, g, fin, s')"
  obtains grp r b' bb_group keys s4 where
    "prepare_batch E grp_opt bbg batched b s = (Inr (grp, r, b', bb_group, keys), s4)"
    "scale_loop E grp r keys b' inc [0 ..< n_scales s4] [] [] s4 = (None, fin, s')"
    "g = Some grp"
  using assms unfolding train_batch_def
  by (auto split: prod.splits sum.splits)

lemma emits_n_scales: "emits K s s' \<Longrightarrow> n_scales s' = n_scales s"
  by (simp add: emits_def evolves_n_scales)

lemma emits_scales: "emits K s s' \<Longrightarrow> scales s' = scales s"
  by (simp add: emits_def evolves_def)

lemma emits_features: "emits K s s' \<Longrightarrow> features s' = features s"
  by (simp add: emits_def evolves_def)

lemma upt_0_Cons: "0 < n \<Longrightarrow> [0 ..< n] = 0 # [1 ..< n]"
  by (simp add: upt_conv_Cons)

lemma scale_loop_calls:
  assumes "scale_loop E grp r keys b inc [0 ..< n] fi cs s = (None, fin, s')"
  shows "stage_calls (new_events s s') = map (Pair inc) [0 ..< n]"
proof (cases "n = 0")
  case True
  with assms show ?thesis by (simp add: stage_calls_def)
next
  case False
  then have u: "[0 ..< n] = 0 # [1 ..< n]" by (simp add: upt_0_Cons)
  have z: "0 \<notin> set [1 ..< n]" by simp
  from assms have "scale_loop E grp r keys b inc (0 # [1 ..< n]) fi cs s = (None, fin, s')"
    by (simp only: u)
  from scale_loop_run0 [OF this z] obtain ps where
    "run_from E inc (scales s) (0 # [1 ..< n]) (cs @ ps) (filter is_stage_call (new_events s s')) fin"
    by blast
  then have "stage_calls (filter is_stage_call (new_events s s')) = map (Pair inc) (0 # [1 ..< n])"
    by (rule run_from_calls)
  then show ?thesis by (simp add: stage_calls_def u)
qed

lemma train_batch_calls:
  assumes "train_batch E grp_opt bbg batched inc b s = (None, g, fin, s')"
  shows "stage_calls (new_events s s') = map (Pair inc) [0 ..< n_scales s]"
    and "evolves s s'"
proof -
  from assms obtain grp r b' bb_group keys s4 where
    p: "prepare_batch E grp_opt bbg batched b s = (Inr (grp, r, b', bb_group, keys), s4)" and
    l: "scale_loop E grp r keys b' inc [0 ..< n_scales s4] [] [] s4 = (None, fin, s')"
    by (rule train_batch_NoneE)
  from p have e: "emits is_prepare_event s s4" by (rule prepare_batch_emits)
  from l have q: "quiet s4 s'" by (rule scale_loop_quiet)
  have ne: "new_events s s' = new_events s s4 @ new_events s4 s'"
    using e q by (simp add: new_events_trans emits_evolves quiet_evolves)
  have "filter is_stage_call (new_events s s4) = []"
    using e by (rule emits_filter) (auto simp: is_prepare_event_def elim: is_stage_call.elims)
  then have "stage_calls (new_events s s4) = []"
    by (simp add: stage_calls_def)
  moreover from l have "stage_calls (new_events s4 s') = map (Pair inc) [0 ..< n_scales s4]"
    by (rule scale_loop_calls)
  ultimately show "stage_calls (new_events s s') = map (Pair inc) [0 ..< n_scales s]"
    by (simp add: ne stage_calls_def emits_n_scales [OF e])
  show "evolves s s'"
    using e q by (blast intro: evolves_trans emits_evolves quiet_evolves)
qed

lemma train_batches_calls:
  "train_batches E grp_opt bbg batched inc bs s = (None, s') \<Longrightarrow>
     evolves s s' \<and>
     stage_calls (new_events s s') =
       (case bs of [] \<Rightarrow> []
        | b # rest \<Rightarrow> map (Pair inc) [0 ..< n_scales s]
                      @ concat (replicate (length rest) (map (Pair True) [0 ..< n_scales s])))"
proof (induction bs arbitrary: grp_opt inc s)
  case Nil
  then show ?case by (simp add: stage_calls_def)
next
  case (Cons b rest)
  from Cons.prems obtain g cs s1 where
    tb: "train_batch E grp_opt bbg batched inc b s = (None, g, cs, s1)" and
    tr: "train_batches E g bbg batched True rest s1 = (None, s')"
    by (auto split: prod.splits option.splits)
  from train_batch_calls [OF tb] have
    c1: "stage_calls (new_events s s1) = map (Pair inc) [0 ..< n_scales s]" and e1: "evolves s s1"
    by simp_all
  from Cons.IH [OF tr] have e2: "evolves s1 s'" and
    c2: "stage_calls (new_events s1 s') =
       (case rest of [] \<Rightarrow> []
        | b # rest' \<Rightarrow> map (Pair True) [0 ..< n_scales s1]
                      @ concat (replicate (length rest') (map (Pair True) [0 ..< n_scales s1])))"
    by simp_all
  have n: "n_scales s1 = n_scales s" using e1 by (rule evolves_n_scales)
  have ne: "new_events s s' = new_events s s1 @ new_events s1 s'"
    using e1 e2 by (rule new_events_trans)
  have "stage_calls (new_events s1 s') = concat (replicate (length rest) (map (Pair True) [0 ..< n_scales s]))"
    using c2 n by (cases rest) simp_all
  with c1 have "stage_calls (new_events s s') =
      map (Pair inc) [0 ..< n_scales s] @ concat (replicate (length rest) (map (Pair True) [0 ..< n_scales s]))"
    by (simp add: ne stage_calls_def)
  with e1 e2 show ?case
    by (auto intro: evolves_trans)
qed

text \<open>
  Claim C1. In a run that returns, the stage calls logged by the training that ends
  \<^verbatim>\<open>__init__\<close> are: for the first batch one \<^verbatim>\<open>train\<close> per scale, in the order of the
  scales, then for every later batch one \<^verbatim>\<open>increment\<close> per scale; the stage calls logged
  by \<^verbatim>\<open>increment\<close> are one \<^verbatim>\<open>increment\<close> per scale for every batch. A pair
  \<open>(False, j)\<close> stands for \<^verbatim>\<open>algorithms[j].train\<close>, \<open>(True, j)\<close> for
  \<^verbatim>\<open>algorithms[j].increment\<close>.
\<close>

theorem first_batch_trains_later_batches_increment:
  "(sdf_init E images grp_opt bbg batch_size s = (None, s') \<longrightarrow>
      stage_calls (new_events s s') =
        (case image_batches images batch_size of
           [] \<Rightarrow> []
         | b # rest \<Rightarrow> map (Pair False) [0 ..< n_scales s]
                       @ concat (replicate (length rest) (map (Pair True) [0 ..< n_scales s]))))
   \<and> (sdf_increment E images grp_opt bbg batch_size s = (None, s'') \<longrightarrow>
      stage_calls (new_events s s'') =
        concat (replicate (length (image_batches images batch_size))
                  (map (Pair True) [0 ..< n_scales s])))"
proof (intro conjI impI)
  assume "sdf_init E images grp_opt bbg batch_size s = (None, s')"
  then have "train_batches E grp_opt bbg (batch_size \<noteq> None) False
               (image_batches images batch_size) s = (None, s')"
    by (simp add: sdf_init_def sdf_train_def)
  from train_batches_calls [OF this]
  show "stage_calls (new_events s s') =
        (case image_batches images batch_size of
           [] \<Rightarrow> []
         | b # rest \<Rightarrow> map (Pair False) [0 ..< n_scales s]
                       @ concat (replicate (length rest) (map (Pair True) [0 ..< n_scales s])))"
    by simp
next
  assume "sdf_increment E images grp_opt bbg batch_size s = (None, s'')"
  then have "train_batches E grp_opt bbg (batch_size \<noteq> None) True
               (image_batches images batch_size) s = (None, s'')"
    by (simp add: sdf_increment_def sdf_train_def)
  from train_batches_calls [OF this]
  show "stage_calls (new_events s s'') =
        concat (replicate (length (image_batches images batch_size))
                  (map (Pair True) [0 ..< n_scales s]))"
    by (cases "image_batches images batch_size") simp_all
qed

theorem first_batch_trains_later_batches_increment_witness:
  "fst (sdf_init example_env [0, 1, 2] None None (Some 2) (example_state [] 3)) = None
   \<and> stage_calls (new_events (example_state [] 3)
        (snd (sdf_init example_env [0, 1, 2] None None (Some 2) (example_state [] 3))))
      = [(False, 0), (False, 1), (True, 0), (True, 1)]
   \<and> fst (sdf_increment example_env [3, 4] None None (Some 1) (example_state [] 3)) = None
   \<and> stage_calls (new_events (example_state [] 3)
        (snd (sdf_increment example_env [3, 4] None None (Some 1) (example_state [] 3))))
      = [(True, 0), (True, 1), (True, 0), (True, 1)]"
proof -
  let ?s = "example_state [] 3"
  have a: "fst (sdf_init example_env [0, 1, 2] None None (Some 2) ?s) = None"
    by code_simp
  have b: "fst (sdf_increment example_env [3, 4] None None (Some 1) ?s) = None"
    by code_simp
  have a': "sdf_init example_env [0, 1, 2] None None (Some 2) ?s
      = (None, snd (sdf_init example_env [0, 1, 2] None None (Some 2) ?s))"
    using a by (simp add: prod_eq_iff)
  have b': "sdf_increment example_env [3, 4] None None (Some 1) ?s
      = (None, snd (sdf_increment example_env [3, 4] None None (Some 1) ?s))"
    using b by (simp add: prod_eq_iff)
  have r1: "(case image_batches [0, 1, 2 :: nat] (Some 2) of
           [] \<Rightarrow> []
         | b # rest \<Rightarrow> map (Pair False) [0 ..< n_scales ?s]
                       @ concat (replicate (length rest) (map (Pair True) [0 ..< n_scales ?s])))
      = [(False, 0), (False, 1), (True, 0), (True, 1)]"
    by code_simp
  have r2: "concat (replicate (length (image_batches [3, 4 :: nat] (Some 1)))
                  (map (Pair True) [0 ..< n_scales ?s]))
      = [(True, 0), (True, 1), (True, 0), (True, 1)]"
    by code_simp
  have c1: "stage_calls (new_events ?s
        (snd (sdf_init example_env [0, 1, 2] None None (Some 2) ?s)))
      = [(False, 0), (False, 1), (True, 0), (True, 1)]"
    using first_batch_trains_later_batches_increment
      [of example_env "[0, 1, 2]" None None "Some 2" ?s
        "snd (sdf_init example_env [0, 1, 2] None None (Some 2) ?s)", THEN conjunct1, THEN mp, OF a']
    by (simp only: r1)
  have c2: "stage_calls (new_events ?s
        (snd (sdf_increment example_env [3, 4] None None (Some 1) ?s)))
      = [(True, 0), (True, 1), (True, 0), (True, 1)]"
    using first_batch_trains_later_batches_increment
      [of example_env "[3, 4]" None None "Some 1" ?s _
        "snd (sdf_increment example_env [3, 4] None None (Some 1) ?s)", THEN conjunct2, THEN mp, OF b']
    by (simp only: r2)
  from a b c1 c2 show ?thesis by (intro conjI)
qed

subsection \<open>Feature extraction across scales\<close>

lemma recompute_cong: "features s' = features s \<Longrightarrow> recompute s' = recompute s"
  by (simp add: recompute_def fun_eq_iff)

lemma scale_level_features:
  assumes "scale_level E grp r keys b inc j fi cs s = (None, fi', cs', s')"
  shows "filter is_compute_features (new_events s s') =
           (if recompute s j then [ComputeFeatures j (features s ! j)] else [])"
    and "fi' = (if recompute s j then compute_features E (map (heap s) b) (features s ! j) else fi)"
proof -
  from scale_level_success [OF assms] obtain scaled shps cs_in cs_out where
    ne: "new_events s s' =
        (if recompute s j then [ComputeFeatures j (features s ! j)] else [])
        @ (if scales s ! j \<noteq> 1 then [ScaleImages j (scales s ! j)] else [])
        @ [stage_event inc j cs_in cs_out]
        @ (if j \<noteq> n_scales s - 1 then [ScaleShapes j (scales s ! (j + 1) / scales s ! j)] else [])"
    and fi: "fi' = (if recompute s j then compute_features E (map (heap s) b) (features s ! j) else fi)"
    by blast
  show "filter is_compute_features (new_events s s') =
           (if recompute s j then [ComputeFeatures j (features s ! j)] else [])"
    by (simp add: ne)
  show "fi' = (if recompute s j then compute_features E (map (heap s) b) (features s ! j) else fi)"
    by (rule fi)
qed

lemma scale_loop_features:
  "scale_loop E grp r keys b inc js fi cs s = (None, fin, s') \<Longrightarrow>
     filter is_compute_features (new_events s s') =
       map (\<lambda>j. ComputeFeatures j (features s ! j)) (filter (recompute s) js)"
proof (induction js arbitrary: fi cs s)
  case Nil
  then show ?case by simp
next
  case (Cons j js)
  from Cons.prems obtain fi1 cs1 s1 where
    lv: "scale_level E grp r keys b inc j fi cs s = (None, fi1, cs1, s1)" and
    lp: "scale_loop E grp r keys b inc js fi1 cs1 s1 = (None, fin, s')"
    by (rule scale_loop_ConsE)
  from lv have q1: "quiet s s1" by (rule scale_level_quiet)
  from lp have q2: "quiet s1 s'" by (rule scale_loop_quiet)
  have ne: "new_events s s' = new_events s s1 @ new_events s1 s'"
    using q1 q2 by (simp add: new_events_trans quiet_evolves)
  have f: "features s1 = features s" using q1 by (rule quiet_features)
  from Cons.IH [OF lp] have "filter is_compute_features (new_events s1 s') =
       map (\<lambda>j. ComputeFeatures j (features s ! j)) (filter (recompute s) js)"
    by (simp add: f recompute_cong [OF f])
  with scale_level_features(1) [OF lv] show ?case
    by (simp add: ne)
qed

lemma train_batch_features:
  assumes "train_batch E grp_opt bbg batched inc b s = (None, g, fin, s')"
  shows "filter is_compute_features (new_events s s') =
       map (\<lambda>j. ComputeFeatures j (features s ! j)) (filter (recompute s) [0 ..< n_scales s])"
proof -
  from assms obtain grp r b' bb_group keys s4 where
    p: "prepare_batch E grp_opt bbg batched b s = (Inr (grp, r, b', bb_group, keys), s4)" and
    l: "scale_loop E grp r keys b' inc [0 ..< n_scales s4] [] [] s4 = (None, fin, s')"
    by (rule train_batch_NoneE)
  from p have e: "emits is_prepare_event s s4" by (rule prepare_batch_emits)
  from l have q: "quiet s4 s'" by (rule scale_loop_quiet)
  have ne: "new_events s s' = new_events s s4 @ new_events s4 s'"
    using e q by (simp add: new_events_trans emits_evolves quiet_evolves)
  have z: "filter is_compute_features (new_events s s4) = []"
    using e by (rule emits_filter) (auto simp: is_prepare_event_def elim: is_compute_features.elims)
  have f: "features s4 = features s" using e by (rule emits_features)
  from scale_loop_features [OF l] show ?thesis
    by (simp add: ne z f recompute_cong [OF f] emits_n_scales [OF e])
qed

text \<open>
  Claim C5. In a batch that is processed without an exception, the feature extractions
  logged are exactly those of the scales \<open>j\<close> with \<open>j = 0\<close> or a feature function other
  than that of scale \<open>j - 1\<close>, each once and in the order of the scales. One pass of the
  scale loop for a scale \<open>j > 0\<close> with the feature function of scale \<open>j - 1\<close> logs no
  extraction and hands on the feature images it was given.
\<close>

theorem features_extracted_only_when_changed:
  "(train_batch E grp_opt bbg batched inc b s = (None, g, fin, s') \<longrightarrow>
      filter is_compute_features (new_events s s') =
        map (\<lambda>j. ComputeFeatures j (features s ! j))
          (filter (\<lambda>j. j = 0 \<or> features s ! j \<noteq> features s ! (j - 1)) [0 ..< n_scales s]))
   \<and> (scale_level E grp r keys b' inc j fi cs s = (None, fi', cs', s1) \<longrightarrow>
        0 < j \<longrightarrow> features s ! j = features s ! (j - 1) \<longrightarrow>
          filter is_compute_features (new_events s s1) = [] \<and> fi' = fi)"
proof (intro conjI impI)
  assume "train_batch E grp_opt bbg batched inc b s = (None, g, fin, s')"
  from train_batch_features [OF this]
  show "filter is_compute_features (new_events s s') =
        map (\<lambda>j. ComputeFeatures j (features s ! j))
          (filter (\<lambda>j. j = 0 \<or> features s ! j \<noteq> features s ! (j - 1)) [0 ..< n_scales s])"
    by (simp add: recompute_def [abs_def])
next
  assume lv: "scale_level E grp r keys b' inc j fi cs s = (None, fi', cs', s1)"
    and j: "0 < j" and f: "features s ! j = features s ! (j - 1)"
  then have "\<not> recompute s j" by (simp add: recompute_def)
  with scale_level_features [OF lv]
  show "filter is_compute_features (new_events s s1) = []" and "fi' = fi"
    by simp_all
qed

theorem features_extracted_only_when_changed_witness:
  "fst (train_batch example_env None None False False [0, 1] (example_state [] 3)) = None
   \<and> filter is_compute_features (new_events (example_state [] 3)
        (snd (snd (snd (train_batch example_env None None False False [0, 1] (example_state [] 3))))))
      = [ComputeFeatures 0 7]
   \<and> fst (scale_level example_env ''PTS'' [] [] [0] False 1 [example_image [] 0] []
             (example_state [] 3)) = None
   \<and> (0 :: nat) < 1
   \<and> features (example_state [] 3) ! 1 = features (example_state [] 3) ! (1 - 1)
   \<and> fst (snd (scale_level example_env ''PTS'' [] [] [0] False 1 [example_image [] 0] []
             (example_state [] 3))) = [example_image [] 0]"
proof -
  let ?s = "example_state [] 3"
  let ?tb = "train_batch example_env None None False False [0, 1] ?s"
  let ?sl = "scale_level example_env ''PTS'' [] [] [0] False 1 [example_image [] 0] [] ?s"
  have a: "fst ?tb = None" by code_simp
  have a': "?tb = (None, fst (snd ?tb), fst (snd (snd ?tb)), snd (snd (snd ?tb)))"
    using a by (simp add: prod_eq_iff)
  have b: "fst ?sl = None" by code_simp
  have b': "?sl = (None, fst (snd ?sl), fst (snd (snd ?sl)), snd (snd (snd ?sl)))"
    using b by (simp add: prod_eq_iff)
  have c: "(0 :: nat) < 1" by simp
  have d: "features ?s ! 1 = features ?s ! (1 - 1)" by code_simp
  have r: "map (\<lambda>j. ComputeFeatures j (features ?s ! j))
          (filter (\<lambda>j. j = 0 \<or> features ?s ! j \<noteq> features ?s ! (j - 1)) [0 ..< n_scales ?s])
      = [ComputeFeatures 0 7]"
    by code_simp
  have c1: "filter is_compute_features (new_events ?s (snd (snd (snd ?tb)))) = [ComputeFeatures 0 7]"
    using features_extracted_only_when_changed
      [where E = example_env and grp_opt = None and bbg = None and batched = False
          and inc = False and b = "[0, 1]" and s = ?s and g = "fst (snd ?tb)"
          and fin = "fst (snd (snd ?tb))" and s' = "snd (snd (snd ?tb))",
        THEN conjunct1, THEN mp, OF a']
    by (simp only: r)
  have c2: "fst (snd ?sl) = [example_image [] 0]"
    using features_extracted_only_when_changed
      [where E = example_env and s = ?s and grp = "''PTS''" and r = "[]" and keys = "[]"
          and b' = "[0]" and inc = False and j = 1 and fi = "[example_image [] 0]" and cs = "[]"
          and fi' = "fst (snd ?sl)" and cs' = "fst (snd (snd ?sl))" and ?s1.0 = "snd (snd (snd ?sl))",
        THEN conjunct2, THEN mp, THEN mp, THEN mp, OF b' c d]
    by (rule conjunct2)
  from a c1 b c d c2 show ?thesis by (intro conjI)
qed

subsection \<open>Shape estimates from scale to scale\<close>

lemma collect_list_all2:
  "collect f xs = Inr ys \<Longrightarrow> list_all2 (\<lambda>x y. f x = Inr y) xs ys"
  by (induction xs arbitrary: ys) (auto split: sum.splits)

lemma collect_length: "collect f xs = Inr ys \<Longrightarrow> length ys = length xs"
  by (drule collect_list_all2) (simp add: list_all2_lengthD)

lemma collect_collect_length:
  "collect (\<lambda>x. collect (g x) keys) xs = Inr ps \<Longrightarrow> c \<in> set ps \<Longrightarrow> length c = length keys"
  by (induction xs arbitrary: ps) (auto split: sum.splits dest: collect_length)

lemma extract_perturbations_counts:
  assumes "extract_perturbations E r keys scaled = Inr ps"
  shows "\<forall>c\<in>set ps. length c = length keys"
proof
  fix c assume "c \<in> set ps"
  with assms [unfolded extract_perturbations_def] show "length c = length keys"
    by (rule collect_collect_length)
qed

lemma length_scale_apply [simp]: "length (scale_apply q sh) = length sh"
  by (simp add: scale_apply_def)

lemma stage_result_counts:
  assumes "count_preserving E" and "stage_result E inc e"
  shows "map length (ev_output e) = map length (ev_input e)"
  using assms by (auto simp: count_preserving_def stage_result_def stage_def split: if_splits)

lemma run_from_counts:
  assumes "count_preserving E"
  shows "run_from E inc scs js cs evs fin \<Longrightarrow> \<forall>c\<in>set cs. length c = m \<Longrightarrow>
     (\<forall>e\<in>set evs. (\<forall>c\<in>set (ev_input e). length c = m) \<and> (\<forall>c\<in>set (ev_output e). length c = m))
     \<and> (\<forall>c\<in>set fin. length c = m)"
proof (induction js arbitrary: cs evs)
  case Nil
  then show ?case by simp
next
  case (Cons j js)
  then obtain e es where evs: "evs = e # es" by (cases evs) auto
  let ?cs1 = "if j \<noteq> length scs - 1
             then map (map (scale_apply (scs ! (j + 1) / scs ! j))) (ev_output e)
             else ev_output e"
  from Cons.prems(1) evs have e: "e = stage_event inc j cs (ev_output e)"
    and sr: "stage_result E inc e" and r: "run_from E inc scs js ?cs1 es fin"
    by auto
  have i: "ev_input e = cs" by (subst e) simp
  from stage_result_counts [OF assms sr] have "map length (ev_output e) = map length cs"
    by (simp add: i)
  then have "set (map length (ev_output e)) = set (map length cs)" by simp
  with Cons.prems(2) have o: "\<forall>c\<in>set (ev_output e). length c = m"
    by (metis (no_types, lifting) image_iff list.set_map)
  then have "\<forall>c\<in>set ?cs1. length c = m" by auto
  from Cons.IH [OF r this] Cons.prems(2) o i show ?case
    by (simp add: evs)
qed

lemma run_from_links:
  "run_from E inc scs [j0 ..< n] cs evs fin \<Longrightarrow> n = length scs \<Longrightarrow>
     map ev_index evs = [j0 ..< n]
     \<and> (j0 < n \<longrightarrow> ev_input (evs ! 0) = cs \<and> fin = ev_output (evs ! (n - 1 - j0)))
     \<and> (\<forall>k. j0 + k + 1 < n \<longrightarrow>
            ev_input (evs ! (k + 1)) =
              map (map (scale_apply (scs ! (j0 + k + 1) / scs ! (j0 + k)))) (ev_output (evs ! k)))"
proof (induction "n - j0" arbitrary: j0 cs evs)
  case 0
  then show ?case by simp
next
  case (Suc d)
  then have lt: "j0 < n" and d: "d = n - Suc j0" by auto
  then have u: "[j0 ..< n] = j0 # [Suc j0 ..< n]" by (simp add: upt_conv_Cons)
  from Suc.prems(1) u obtain e es where evs: "evs = e # es" by (cases evs) auto
  let ?cs1 = "if j0 \<noteq> length scs - 1
             then map (map (scale_apply (scs ! (j0 + 1) / scs ! j0))) (ev_output e)
             else ev_output e"
  from Suc.prems(1) u evs have e: "e = stage_event inc j0 cs (ev_output e)"
    and r: "run_from E inc scs [Suc j0 ..< n] ?cs1 es fin"
    by auto
  have ei: "ev_input e = cs" "ev_index e = j0" by (subst e, simp)+
  from Suc.hyps(1) [OF d r Suc.prems(2)] have
    ih1: "map ev_index es = [Suc j0 ..< n]" and
    ih2: "Suc j0 < n \<longrightarrow> ev_input (es ! 0) = ?cs1 \<and> fin = ev_output (es ! (n - 1 - Suc j0))" and
    ih3: "\<forall>k. Suc j0 + k + 1 < n \<longrightarrow>
            ev_input (es ! (k + 1)) =
              map (map (scale_apply (scs ! (Suc j0 + k + 1) / scs ! (Suc j0 + k)))) (ev_output (es ! k))"
    by blast+
  have c1: "map ev_index evs = [j0 ..< n]"
    by (simp add: evs u ih1 ei)
  have c2: "ev_input (evs ! 0) = cs" by (simp add: evs ei)
  have c3: "fin = ev_output (evs ! (n - 1 - j0))"
  proof (cases "Suc j0 < n")
    case True
    then have "n - 1 - j0 = Suc (n - 1 - Suc j0)" by simp
    with ih2 True show ?thesis by (simp add: evs)
  next
    case False
    with lt have j: "j0 = n - 1" "[Suc j0 ..< n] = []" by auto
    with r Suc.prems(2) have "es = []" "fin = ev_output e" by auto
    with j show ?thesis by (simp add: evs)
  qed
  have c4: "\<forall>k. j0 + k + 1 < n \<longrightarrow>
            ev_input (evs ! (k + 1)) =
              map (map (scale_apply (scs ! (j0 + k + 1) / scs ! (j0 + k)))) (ev_output (evs ! k))"
  proof (intro allI impI)
    fix k assume k: "j0 + k + 1 < n"
    show "ev_input (evs ! (k + 1)) =
              map (map (scale_apply (scs ! (j0 + k + 1) / scs ! (j0 + k)))) (ev_output (evs ! k))"
    proof (cases k)
      case 0
      with k Suc.prems(2) have "Suc j0 < n" "j0 \<noteq> length scs - 1" by auto
      with ih2 show ?thesis by (simp add: evs 0)
    next
      case (Suc k')
      with k have "Suc j0 + k' + 1 < n" by simp
      with ih3 have "ev_input (es ! (k' + 1)) =
              map (map (scale_apply (scs ! (Suc j0 + k' + 1) / scs ! (Suc j0 + k')))) (ev_output (es ! k'))"
        by blast
      then show ?thesis by (simp add: evs Suc)
    qed
  qed
  from c1 c2 c3 c4 lt show ?case by blast
qed

lemma train_batch_run:
  assumes "train_batch E grp_opt bbg batched inc b s = (None, g, fin, s')"
    and "prepare_batch E grp_opt bbg batched b s = (Inr (grp, r, b', bb_group, keys), s4)"
    and "0 < n_scales s"
  shows "\<exists>ps. extract_perturbations E r keys (first_scaled E s4 b') = Inr ps
     \<and> run_from E inc (scales s) [0 ..< n_scales s] ps
          (filter is_stage_call (new_events s s')) fin"
proof -
  from assms(1,2) have
    l: "scale_loop E grp r keys b' inc [0 ..< n_scales s4] [] [] s4 = (None, fin, s')"
    by (simp add: train_batch_def split: prod.splits)
  from assms(2) have e: "emits is_prepare_event s s4" by (rule prepare_batch_emits)
  from l have q: "quiet s4 s'" by (rule scale_loop_quiet)
  have ne: "new_events s s' = new_events s s4 @ new_events s4 s'"
    using e q by (simp add: new_events_trans emits_evolves quiet_evolves)
  have z: "filter is_stage_call (new_events s s4) = []"
    using e by (rule emits_filter) (auto simp: is_prepare_event_def elim: is_stage_call.elims)
  have n: "n_scales s4 = n_scales s" and sc: "scales s4 = scales s"
    using e by (rule emits_n_scales, rule emits_scales)
  from assms(3) have u: "[0 ..< n_scales s] = 0 # [1 ..< n_scales s]" by (rule upt_0_Cons)
  from l have "scale_loop E grp r keys b' inc (0 # [1 ..< n_scales s]) [] [] s4 = (None, fin, s')"
    by (simp only: n u)
  from scale_loop_run0 [OF this] obtain ps where
    "extract_perturbations E r keys (first_scaled E s4 b') = Inr ps"
    "run_from E inc (scales s4) (0 # [1 ..< n_scales s]) ([] @ ps)
       (filter is_stage_call (new_events s4 s')) fin"
    by auto
  then show ?thesis
    by (simp add: ne z sc u)
qed

lemma train_batch_no_scales:
  assumes "train_batch E grp_opt bbg batched inc b s = (None, g, fin, s')" and "n_scales s = 0"
  shows "filter is_stage_call (new_events s s') = []" and "fin = []"
proof -
  from assms(1) obtain grp r b' bb_group keys s4 where
    p: "prepare_batch E grp_opt bbg batched b s = (Inr (grp, r, b', bb_group, keys), s4)" and
    l: "scale_loop E grp r keys b' inc [0 ..< n_scales s4] [] [] s4 = (None, fin, s')"
    by (rule train_batch_NoneE)
  from p have e: "emits is_prepare_event s s4" by (rule prepare_batch_emits)
  have z: "filter is_stage_call (new_events s s4) = []"
    using e by (rule emits_filter) (auto simp: is_prepare_event_def elim: is_stage_call.elims)
  from l assms(2) emits_n_scales [OF e] have "s' = s4" "fin = []" by simp_all
  with z show "filter is_stage_call (new_events s s') = []" and "fin = []" by simp_all
qed

text \<open>
  Claim C6. In a batch that is processed without an exception, the stage calls are those
  of the scales \<open>0, 1, \<dots>\<close> in this order; what the stage of scale \<open>j + 1\<close> is given is
  what the stage of scale \<open>j\<close> returned, every point of every shape multiplied by
  \<open>scales[j + 1] / scales[j]\<close>; what the batch ends with is what the stage of the last
  scale returned, as it is. The division is exact in this model.
\<close>

theorem estimates_rescaled_between_scales:
  assumes "train_batch E grp_opt bbg batched inc b s = (None, g, fin, s')"
  shows "map ev_index (filter is_stage_call (new_events s s')) = [0 ..< n_scales s]
    \<and> (\<forall>j. j + 1 < n_scales s \<longrightarrow>
          ev_input (filter is_stage_call (new_events s s') ! (j + 1)) =
            map (map (scale_apply (scales s ! (j + 1) / scales s ! j)))
              (ev_output (filter is_stage_call (new_events s s') ! j)))
    \<and> (0 < n_scales s \<longrightarrow>
          fin = ev_output (filter is_stage_call (new_events s s') ! (n_scales s - 1)))"
proof (cases "0 < n_scales s")
  case True
  from assms obtain grp r b' bb_group keys s4 where
    p: "prepare_batch E grp_opt bbg batched b s = (Inr (grp, r, b', bb_group, keys), s4)"
    by (rule train_batch_NoneE)
  from train_batch_run [OF assms p True] obtain ps where
    "run_from E inc (scales s) [0 ..< n_scales s] ps (filter is_stage_call (new_events s s')) fin"
    by blast
  from run_from_links [OF this] True show ?thesis
    by (simp add: n_scales_def)
next
  case False
  then have "n_scales s = 0" by simp
  with train_batch_no_scales [OF assms] show ?thesis by simp
qed

theorem estimates_rescaled_between_scales_witness:
  "fst (train_batch example_env None None False False [0, 1] (example_state [] 3)) = None
   \<and> (0 :: nat) + 1 < n_scales (example_state [] 3)
   \<and> scales (example_state [] 3) ! (0 + 1) / scales (example_state [] 3) ! 0 = 2
   \<and> ev_input (filter is_stage_call (new_events (example_state [] 3)
        (snd (snd (snd (train_batch example_env None None False False [0, 1]
           (example_state [] 3)))))) ! (0 + 1)) =
      map (map (scale_apply (scales (example_state [] 3) ! (0 + 1) / scales (example_state [] 3) ! 0)))
        (ev_output (filter is_stage_call (new_events (example_state [] 3)
        (snd (snd (snd (train_batch example_env None None False False [0, 1]
           (example_state [] 3)))))) ! 0))"
proof -
  let ?s = "example_state [] 3"
  let ?tb = "train_batch example_env None None False False [0, 1] ?s"
  have a: "fst ?tb = None" by code_simp
  have a': "?tb = (None, fst (snd ?tb), fst (snd (snd ?tb)), snd (snd (snd ?tb)))"
    using a by (simp add: prod_eq_iff)
  have n: "(0 :: nat) + 1 < n_scales ?s" by code_simp
  have q: "scales ?s ! (0 + 1) / scales ?s ! 0 = 2" by code_simp
  from estimates_rescaled_between_scales [OF a', THEN conjunct2, THEN conjunct1, THEN spec, THEN mp, OF n]
    a n q
  show ?thesis by (intro conjI)
qed

text \<open>
  Claim C8. Given stages whose \<^verbatim>\<open>train\<close> and \<^verbatim>\<open>increment\<close> return as many estimates per
  image as they are given, in a batch that is processed without an exception every stage
  of every scale is given and returns, for every image, as many estimates as there are
  bounding-box keys on the first image of the rescaled batch under the namespace, and so
  many are left for every image when the batch ends.
\<close>

theorem estimates_per_image_constant:
  assumes "count_preserving E"
    and "prepare_batch E grp_opt bbg batched b s = (Inr (grp, r, b', bb_group, keys), s4)"
    and "train_batch E grp_opt bbg batched inc b s = (None, g, fin, s')"
  shows "keys = keys_matching E (landmarks (heap s4 (b' ! 0))) (bb_pattern bb_group)
    \<and> (\<forall>e\<in>set (filter is_stage_call (new_events s s')).
          (\<forall>c\<in>set (ev_input e). length c = length keys)
        \<and> (\<forall>c\<in>set (ev_output e). length c = length keys))
    \<and> (\<forall>c\<in>set fin. length c = length keys)"
proof -
  from assms(2) have k: "keys = keys_matching E (landmarks (heap s4 (b' ! 0))) (bb_pattern bb_group)"
    unfolding prepare_batch_def
    by (auto simp: index_def split: sum.splits prod.splits option.splits if_splits)
  show ?thesis
  proof (cases "0 < n_scales s")
    case True
    from train_batch_run [OF assms(3,2) True] obtain ps where
      x: "extract_perturbations E r keys (first_scaled E s4 b') = Inr ps" and
      rf: "run_from E inc (scales s) [0 ..< n_scales s] ps
             (filter is_stage_call (new_events s s')) fin"
      by blast
    from x have "\<forall>c\<in>set ps. length c = length keys"
      by (rule extract_perturbations_counts)
    from run_from_counts [OF assms(1) rf this] k show ?thesis by blast
  next
    case False
    then have "n_scales s = 0" by simp
    with train_batch_no_scales [OF assms(3)] k show ?thesis by simp
  qed
qed

theorem estimates_per_image_constant_witness:
  "count_preserving example_env
   \<and> fst (prepare_batch example_env None None False [0, 1] (example_state [] 3)) =
       Inr (''PTS'', [(1 / 2, 0), (5 / 2, 4), (9 / 2, 2)], [100, 101], ''__gt_bb_'',
            [''__gt_bb_0'', ''__gt_bb__1'', ''__gt_bb__2''])
   \<and> fst (train_batch example_env None None False False [0, 1] (example_state [] 3)) = None
   \<and> list_all (\<lambda>c. length c = length [''__gt_bb_0'', ''__gt_bb__1'', ''__gt_bb__2''])
         (fst (snd (snd (train_batch example_env None None False False [0, 1]
                           (example_state [] 3)))))"
proof -
  let ?s = "example_state [] 3"
  let ?p = "prepare_batch example_env None None False [0, 1] ?s"
  let ?tb = "train_batch example_env None None False False [0, 1] ?s"
  have c: "count_preserving example_env"
    by (simp add: count_preserving_def example_env_def)
  have p: "fst ?p = Inr (''PTS'', [(1 / 2, 0), (5 / 2, 4), (9 / 2, 2)], [100, 101], ''__gt_bb_'',
            [''__gt_bb_0'', ''__gt_bb__1'', ''__gt_bb__2''])"
    by code_simp
  have p': "?p = (Inr (''PTS'', [(1 / 2, 0), (5 / 2, 4), (9 / 2, 2)], [100, 101], ''__gt_bb_'',
            [''__gt_bb_0'', ''__gt_bb__1'', ''__gt_bb__2'']), snd ?p)"
    using p by (simp add: prod_eq_iff)
  have a: "fst ?tb = None" by code_simp
  have a': "?tb = (None, fst (snd ?tb), fst (snd (snd ?tb)), snd (snd (snd ?tb)))"
    using a by (simp add: prod_eq_iff)
  from estimates_per_image_constant [OF c p' a', THEN conjunct2, THEN conjunct2]
  have "list_all (\<lambda>c. length c = length [''__gt_bb_0'', ''__gt_bb__1'', ''__gt_bb__2''])
         (fst (snd (snd ?tb)))"
    by (simp only: list_all_iff)
  with c p a show ?thesis by (intro conjI)
qed

subsection \<open>The reference shape\<close>

lemma emits_mono: "emits K s s' \<Longrightarrow> (\<And>e. K e \<Longrightarrow> K' e) \<Longrightarrow> emits K' s s'"
  by (auto simp: emits_def list_all_iff)

lemma emits_algorithms [simp]: "emits K s (s\<lparr>algorithms := (algorithms s)[j := a]\<rparr>)"
  by (simp add: emits_def)

lemma handle_features_emits: "handle_features E b j fi s = (res, s') \<Longrightarrow> emits is_scale_event s s'"
  by (auto simp: handle_features_eq is_scale_event_def split: if_splits)

lemma handle_scales_emits: "handle_scales E j fi s = (res, s') \<Longrightarrow> emits is_scale_event s s'"
  by (auto simp: handle_scales_eq is_scale_event_def split: if_splits)

lemma run_algorithm_emits:
  "run_algorithm E inc j imgs shps cs s = (res, s') \<Longrightarrow> emits is_scale_event s s'"
  by (auto simp: run_algorithm_eq is_scale_event_def Let_def emits_def evolves_def new_events_def
      split: if_splits)

lemma scale_to_next_emits: "scale_to_next j cs s = (res, s') \<Longrightarrow> emits is_scale_event s s'"
  by (auto simp: scale_to_next_def is_scale_event_def split: if_splits sum.splits)

lemma scale_level_emits:
  "scale_level E grp r keys b inc j fi cs s = (err, fi', cs', s') \<Longrightarrow> emits is_scale_event s s'"
  unfolding scale_level_def
  by (auto split: prod.splits sum.splits
      dest!: handle_features_emits handle_scales_emits run_algorithm_emits scale_to_next_emits
      intro: emits_trans)

lemma scale_loop_emits:
  "scale_loop E grp r keys b inc js fi cs s = (err, fin, s') \<Longrightarrow> emits is_scale_event s s'"
proof (induction js arbitrary: fi cs s)
  case Nil
  then show ?case by simp
next
  case (Cons j js)
  show ?case
  proof (cases "scale_level E grp r keys b inc j fi cs s")
    case (fields e1 fi1 cs1 s1)
    then have q1: "emits is_scale_event s s1" by (rule scale_level_emits)
    show ?thesis
    proof (cases e1)
      case None
      with fields Cons.prems have "scale_loop E grp r keys b inc js fi1 cs1 s1 = (err, fin, s')"
        by simp
      then have "emits is_scale_event s1 s'" by (rule Cons.IH)
      with q1 show ?thesis by (rule emits_trans)
    next
      case (Some e)
      with fields Cons.prems have "s' = s1" by simp
      with q1 show ?thesis by simp
    qed
  qed
qed

lemma prepare_batch_InrE:
  assumes "prepare_batch E grp_opt bbg batched b s = (Inr (grp, r, b', bb_group, keys), s4)"
  obtains s1 s2 s3 i0 where
    "resolve_group s grp_opt b = Inr grp"
    "ensure_reference_shape E batched grp b s = (Inr r, s1)"
    "rescale E grp r b s1 = (b', s2)"
    "resolve_bb_group E grp bbg b' s2 = (Inr bb_group, s3)"
    "generate_perturbations E grp bb_group b' s3 = (None, s4)"
    "index b' 0 = Inr i0"
    "keys = keys_matching E (landmarks (heap s4 i0)) (bb_pattern bb_group)"
  using assms unfolding prepare_batch_def
  by (auto split: sum.splits prod.splits option.splits)

lemma ensure_reference_shape_set:
  assumes "reference_shape s = Some r0"
  shows "ensure_reference_shape E batched grp b s = (Inr r0, s)"
  using assms by (simp add: ensure_reference_shape_def)

lemma ensure_reference_shape_unset:
  assumes "reference_shape s = None"
    and "ensure_reference_shape E batched grp b s = (Inr r, s1)"
  shows "\<exists>shapes. collect (\<lambda>i. lms (landmarks (heap s i)) grp) b = Inr shapes
      \<and> r = compute_reference_shape E shapes (diagonal s)
      \<and> reference_shape s1 = Some r
      \<and> evolves s s1
      \<and> new_events s s1 = (if batched then [Warn NoReferenceShapeWarning] else [])
                           @ [ComputeReferenceShape shapes (diagonal s)]"
  using assms
  by (auto simp: ensure_reference_shape_def Let_def evolves_def new_events_def
      split: sum.splits if_splits)

lemma is_reference_event_simps [simp]:
  "is_reference_event (ComputeReferenceShape a b)"
  "is_reference_event (Warn NoReferenceShapeWarning)"
  "\<not> is_reference_event (Warn (NPerturbationsResetWarning c d))"
  "\<not> is_reference_event (RescaleToReference f g h)"
  "\<not> is_reference_event (Perturb k l)"
  by (simp_all add: is_reference_event_def)

lemma is_scale_event_not_reference: "is_scale_event e \<Longrightarrow> \<not> is_reference_event e"
  by (cases e) (auto simp: is_scale_event_def is_reference_event_def)

lemma rescale_emits_latched:
  "rescale E grp r b s = (b', s') \<Longrightarrow> emits (\<lambda>e. \<not> is_reference_event e) s s'"
  by (auto simp: rescale_def Let_def emits_def evolves_def new_events_def split: prod.splits)

lemma evolves_reference_shape:
  "evolves s s' \<Longrightarrow> reference_shape s = Some r \<Longrightarrow> reference_shape s' = Some r"
  by (simp add: evolves_def)

text \<open>What follows the reference shape in a batch, whatever the outcome.\<close>

lemma after_reference_shape3:
  assumes "rescale E grp r b s1 = (b', s2)"
    and "resolve_bb_group E grp bbg b' s2 = (res3, s3)"
  shows "emits (\<lambda>e. \<not> is_reference_event e) s1 s3"
proof -
  have a: "emits (\<lambda>e. \<not> is_reference_event e) s1 s2"
    using assms(1) by (rule rescale_emits_latched)
  have "emits (\<lambda>e. \<not> is_reference_event e) s2 s3"
    using assms(2) by (rule resolve_bb_group_emits)
  with a show ?thesis by (rule emits_trans)
qed

lemma after_reference_shape4:
  assumes "rescale E grp r b s1 = (b', s2)"
    and "resolve_bb_group E grp bbg b' s2 = (res3, s3)"
    and "generate_perturbations E grp bb_group b' s3 = (res4, s4)"
  shows "emits (\<lambda>e. \<not> is_reference_event e) s1 s4"
proof -
  have b: "emits (\<lambda>e. \<not> is_reference_event e) s1 s3"
    using assms(1,2) by (rule after_reference_shape3)
  have "emits (\<lambda>e. \<not> is_reference_event e) s3 s4"
    using assms(3) by (rule generate_perturbations_emits) simp_all
  with b show ?thesis by (rule emits_trans)
qed

lemma after_reference_shape5:
  assumes "rescale E grp r b s1 = (b', s2)"
    and "resolve_bb_group E grp bbg b' s2 = (res3, s3)"
    and "generate_perturbations E grp bb_group b' s3 = (res4, s4)"
    and "scale_loop E grp r keys b' inc js fi cs s4 = (err, fin, s5)"
  shows "emits (\<lambda>e. \<not> is_reference_event e) s1 s5"
proof -
  have c: "emits (\<lambda>e. \<not> is_reference_event e) s1 s4"
    using assms(1,2,3) by (rule after_reference_shape4)
  have "emits is_scale_event s4 s5" using assms(4) by (rule scale_loop_emits)
  then have "emits (\<lambda>e. \<not> is_reference_event e) s4 s5"
    by (rule emits_mono) (rule is_scale_event_not_reference)
  with c show ?thesis by (rule emits_trans)
qed

lemma prepare_batch_latched:
  assumes "reference_shape s = Some r0"
    and "prepare_batch E grp_opt bbg batched b s = (res, s4)"
  shows "emits (\<lambda>e. \<not> is_reference_event e) s s4"
proof (cases "resolve_group s grp_opt b")
  case (Inl e)
  with assms(2) show ?thesis by (simp add: prepare_batch_def)
next
  case (Inr grp)
  obtain b' s2 where r: "rescale E grp r0 b s = (b', s2)"
    by (cases "rescale E grp r0 b s")
  obtain res3 s3 where g: "resolve_bb_group E grp bbg b' s2 = (res3, s3)"
    by (cases "resolve_bb_group E grp bbg b' s2")
  have e3: "emits (\<lambda>e. \<not> is_reference_event e) s s3"
    using r g by (rule after_reference_shape3)
  show ?thesis
  proof (cases res3)
    case (Inl e)
    with assms Inr r g have "s4 = s3"
      by (simp add: prepare_batch_def ensure_reference_shape_set)
    with e3 show ?thesis by simp
  next
    case bg: (Inr bb_group)
    obtain res4 s4' where p: "generate_perturbations E grp bb_group b' s3 = (res4, s4')"
      by (cases "generate_perturbations E grp bb_group b' s3")
    have e4: "emits (\<lambda>e. \<not> is_reference_event e) s s4'"
      using r g p by (rule after_reference_shape4)
    from assms Inr r g bg p have "s4 = s4'"
      by (auto simp: prepare_batch_def ensure_reference_shape_set split: option.splits sum.splits)
    with e4 show ?thesis by simp
  qed
qed

lemma train_batch_latched:
  assumes "reference_shape s = Some r0"
    and "train_batch E grp_opt bbg batched inc b s = (err, g, fin, s')"
  shows "emits (\<lambda>e. \<not> is_reference_event e) s s'"
proof -
  obtain res s4 where p: "prepare_batch E grp_opt bbg batched b s = (res, s4)"
    by (cases "prepare_batch E grp_opt bbg batched b s")
  from assms(1) p have e: "emits (\<lambda>e. \<not> is_reference_event e) s s4"
    by (rule prepare_batch_latched)
  show ?thesis
  proof (cases res)
    case (Inl x)
    with p assms(2) have "s' = s4" by (simp add: train_batch_def)
    with e show ?thesis by simp
  next
    case (Inr v)
    obtain grp r b' bb_group keys where v: "v = (grp, r, b', bb_group, keys)"
      by (cases v)
    with p Inr assms(2) have
      "scale_loop E grp r keys b' inc [0 ..< n_scales s4] [] [] s4 = (err, fin, s')"
      by (simp add: train_batch_def split: prod.splits)
    then have "emits is_scale_event s4 s'" by (rule scale_loop_emits)
    then have "emits (\<lambda>e. \<not> is_reference_event e) s4 s'"
      by (rule emits_mono) (rule is_scale_event_not_reference)
    with e show ?thesis by (rule emits_trans)
  qed
qed

lemma train_batches_latched:
  "reference_shape s = Some r0 \<Longrightarrow> train_batches E grp_opt bbg batched inc bs s = (err, s') \<Longrightarrow>
     emits (\<lambda>e. \<not> is_reference_event e) s s'"
proof (induction bs arbitrary: grp_opt inc s)
  case Nil
  then show ?case by simp
next
  case (Cons b rest)
  obtain e1 g cs s1 where tb: "train_batch E grp_opt bbg batched inc b s = (e1, g, cs, s1)"
    by (cases "train_batch E grp_opt bbg batched inc b s")
  from Cons.prems(1) tb have q: "emits (\<lambda>e. \<not> is_reference_event e) s s1"
    by (rule train_batch_latched)
  show ?case
  proof (cases e1)
    case None
    with tb Cons.prems(2) have tr: "train_batches E g bbg batched True rest s1 = (err, s')"
      by simp
    from q Cons.prems(1) have "reference_shape s1 = Some r0"
      by (blast intro: evolves_reference_shape emits_evolves)
    from Cons.IH [OF this tr] q show ?thesis by (rule emits_trans [rotated])
  next
    case (Some e)
    with tb Cons.prems(2) have "s' = s1" by simp
    with q show ?thesis by simp
  qed
qed

lemma train_batch_first_reference:
  assumes "reference_shape s = None"
    and "train_batch E grp_opt bbg batched inc b s = (None, g, fin, s')"
    and "resolve_group s grp_opt b = Inr grp"
    and "collect (\<lambda>i. lms (landmarks (heap s i)) grp) b = Inr shapes"
  shows "\<exists>rst. new_events s s' = (if batched then [Warn NoReferenceShapeWarning] else [])
                 @ [ComputeReferenceShape shapes (diagonal s)] @ rst
            \<and> list_all (\<lambda>e. \<not> is_reference_event e) rst"
    and "reference_shape s' = Some (compute_reference_shape E shapes (diagonal s))"
    and "evolves s s'"
proof -
  from assms(2) obtain grp' r b' bb_group keys s4 where
    p: "prepare_batch E grp_opt bbg batched b s = (Inr (grp', r, b', bb_group, keys), s4)" and
    l: "scale_loop E grp' r keys b' inc [0 ..< n_scales s4] [] [] s4 = (None, fin, s')"
    by (rule train_batch_NoneE)
  from p obtain s1 s2 s3 where
    rg: "resolve_group s grp_opt b = Inr grp'" and
    er: "ensure_reference_shape E batched grp' b s = (Inr r, s1)" and
    rs: "rescale E grp' r b s1 = (b', s2)" and
    rb: "resolve_bb_group E grp' bbg b' s2 = (Inr bb_group, s3)" and
    gp: "generate_perturbations E grp' bb_group b' s3 = (None, s4)"
    by (rule prepare_batch_InrE)
  from rg assms(3) have gg: "grp' = grp" by simp
  from ensure_reference_shape_unset [OF assms(1) er] assms(4) gg have
    r: "r = compute_reference_shape E shapes (diagonal s)" and
    r1: "reference_shape s1 = Some r" and
    e1: "evolves s s1" and
    n1: "new_events s s1 = (if batched then [Warn NoReferenceShapeWarning] else [])
                           @ [ComputeReferenceShape shapes (diagonal s)]"
    by auto
  from rs rb gp l have e5: "emits (\<lambda>e. \<not> is_reference_event e) s1 s'"
    by (rule after_reference_shape5)
  then have e15: "evolves s1 s'" by (rule emits_evolves)
  have "new_events s s' = new_events s s1 @ new_events s1 s'"
    using e1 e15 by (rule new_events_trans)
  with n1 e5 show "\<exists>rst. new_events s s' = (if batched then [Warn NoReferenceShapeWarning] else [])
                 @ [ComputeReferenceShape shapes (diagonal s)] @ rst
            \<and> list_all (\<lambda>e. \<not> is_reference_event e) rst"
    by (auto simp: emits_def)
  from e15 r1 r show "reference_shape s' = Some (compute_reference_shape E shapes (diagonal s))"
    by (simp add: evolves_reference_shape)
  from e1 e15 show "evolves s s'" by (rule evolves_trans)
qed

lemma reference_events:
  assumes "evs = (if batched then [Warn NoReferenceShapeWarning] else [])
                 @ [ComputeReferenceShape shapes d] @ rst"
    and "list_all (\<lambda>e. \<not> is_reference_event e) rst"
  shows "filter is_reference_event evs =
           (if batched then [Warn NoReferenceShapeWarning] else []) @ [ComputeReferenceShape shapes d]"
    and "takeWhile (\<lambda>e. \<not> is_compute_reference_shape e) evs =
           (if batched then [Warn NoReferenceShapeWarning] else [])"
proof -
  from assms(2) have "filter is_reference_event rst = []"
    by (simp add: list_all_iff filter_empty_conv)
  with assms(1) show "filter is_reference_event evs =
           (if batched then [Warn NoReferenceShapeWarning] else []) @ [ComputeReferenceShape shapes d]"
    by simp
  from assms(1) show "takeWhile (\<lambda>e. \<not> is_compute_reference_shape e) evs =
           (if batched then [Warn NoReferenceShapeWarning] else [])"
    by simp
qed

text \<open>
  Claim C4. A run of \<^verbatim>\<open>_train\<close> that starts without a reference shape, has a first batch
  and returns: the reference shape is what \<^verbatim>\<open>compute_reference_shape\<close> makes of the
  ground-truth shapes of the first batch and the configured diagonal; among the events
  logged, those that concern the reference shape are that one computation, preceded by
  the warning exactly when \<^verbatim>\<open>batch_size\<close> is set; nothing else, so no rescaling,
  comes before the computation. A run that starts with a reference shape ends with the same
  one, however it ends, and logs no computation and no such warning.
\<close>

theorem reference_shape_set_once:
  "(reference_shape s = None \<longrightarrow> image_batches images batch_size = b0 # rest \<longrightarrow>
    resolve_group s grp_opt b0 = Inr grp \<longrightarrow>
    collect (\<lambda>i. lms (landmarks (heap s i)) grp) b0 = Inr shapes \<longrightarrow>
    sdf_train E images grp_opt bbg inc batch_size s = (None, s') \<longrightarrow>
      reference_shape s' = Some (compute_reference_shape E shapes (diagonal s))
    \<and> filter is_reference_event (new_events s s') =
        (if batch_size \<noteq> None then [Warn NoReferenceShapeWarning] else [])
        @ [ComputeReferenceShape shapes (diagonal s)]
    \<and> takeWhile (\<lambda>e. \<not> is_compute_reference_shape e) (new_events s s') =
        (if batch_size \<noteq> None then [Warn NoReferenceShapeWarning] else []))
   \<and> (reference_shape s = Some r \<longrightarrow>
      sdf_train E images grp_opt bbg inc batch_size s = (err, s'') \<longrightarrow>
        reference_shape s'' = Some r \<and> filter is_reference_event (new_events s s'') = [])"
proof (intro conjI impI)
  assume none: "reference_shape s = None"
    and ib: "image_batches images batch_size = b0 # rest"
    and rg: "resolve_group s grp_opt b0 = Inr grp"
    and co: "collect (\<lambda>i. lms (landmarks (heap s i)) grp) b0 = Inr shapes"
    and run: "sdf_train E images grp_opt bbg inc batch_size s = (None, s')"
  let ?pre = "if batch_size \<noteq> None then [Warn NoReferenceShapeWarning] else []"
  from run ib obtain g cs s1 where
    tb: "train_batch E grp_opt bbg (batch_size \<noteq> None) inc b0 s = (None, g, cs, s1)" and
    tr: "train_batches E g bbg (batch_size \<noteq> None) True rest s1 = (None, s')"
    by (auto simp: sdf_train_def split: prod.splits option.splits)
  from train_batch_first_reference [OF none tb rg co] obtain rst where
    n1: "new_events s s1 = ?pre @ [ComputeReferenceShape shapes (diagonal s)] @ rst" and
    t1: "list_all (\<lambda>e. \<not> is_reference_event e) rst" and
    r1: "reference_shape s1 = Some (compute_reference_shape E shapes (diagonal s))" and
    e1: "evolves s s1"
    by blast
  from train_batches_latched [OF r1 tr] have
    e2: "evolves s1 s'" and t2: "list_all (\<lambda>e. \<not> is_reference_event e) (new_events s1 s')"
    by (simp_all add: emits_def)
  have n: "new_events s s' = ?pre @ [ComputeReferenceShape shapes (diagonal s)]
             @ (rst @ new_events s1 s')"
    using new_events_trans [OF e1 e2] n1 by simp
  have t: "list_all (\<lambda>e. \<not> is_reference_event e) (rst @ new_events s1 s')"
    using t1 t2 by simp
  from e2 r1 show "reference_shape s' = Some (compute_reference_shape E shapes (diagonal s))"
    by (rule evolves_reference_shape)
  from n t show "filter is_reference_event (new_events s s') =
      ?pre @ [ComputeReferenceShape shapes (diagonal s)]"
    by (rule reference_events(1))
  from n t show "takeWhile (\<lambda>e. \<not> is_compute_reference_shape e) (new_events s s') = ?pre"
    by (rule reference_events(2))
next
  assume some: "reference_shape s = Some r"
    and run: "sdf_train E images grp_opt bbg inc batch_size s = (err, s'')"
  from run have "train_batches E grp_opt bbg (batch_size \<noteq> None) inc
                   (image_batches images batch_size) s = (err, s'')"
    by (simp add: sdf_train_def)
  from train_batches_latched [OF some this] have
    e: "evolves s s''" and t: "list_all (\<lambda>e. \<not> is_reference_event e) (new_events s s'')"
    by (simp_all add: emits_def)
  from e some show "reference_shape s'' = Some r" by (rule evolves_reference_shape)
  from t show "filter is_reference_event (new_events s s'') = []"
    by (simp add: list_all_iff filter_empty_conv)
qed

theorem reference_shape_set_once_witness:
  "reference_shape (example_state [] 3) = None
   \<and> image_batches [0, 1, 2] (Some 2) = [0, 1] # [[2]]
   \<and> resolve_group (example_state [] 3) None [0, 1] = Inr ''PTS''
   \<and> collect (\<lambda>i. lms (landmarks (heap (example_state [] 3) i)) ''PTS'') [0, 1] =
       Inr [[(0, 0), (2, 4), (4, 2)], [(1, 0), (3, 4), (5, 2)]]
   \<and> sdf_train example_env [0, 1, 2] None None False (Some 2) (example_state [] 3) =
       (None, example_trained)
   \<and> reference_shape example_trained =
       Some (compute_reference_shape example_env
               [[(0, 0), (2, 4), (4, 2)], [(1, 0), (3, 4), (5, 2)]] (diagonal (example_state [] 3)))
   \<and> filter is_reference_event (new_events (example_state [] 3) example_trained) =
       [Warn NoReferenceShapeWarning,
        ComputeReferenceShape [[(0, 0), (2, 4), (4, 2)], [(1, 0), (3, 4), (5, 2)]]
          (diagonal (example_state [] 3))]
   \<and> reference_shape (snd (sdf_train example_env [3] None None True None example_trained)) =
       Some (compute_reference_shape example_env
               [[(0, 0), (2, 4), (4, 2)], [(1, 0), (3, 4), (5, 2)]] (diagonal (example_state [] 3)))"
proof -
  let ?s = "example_state [] 3"
  let ?sh = "[[(0, 0), (2, 4), (4, 2)], [(1, 0), (3, 4), (5, 2)]] :: shape list"
  have h1: "reference_shape ?s = None" by code_simp
  have h2: "image_batches [0, 1, 2] (Some 2) = [0, 1] # [[2]]" by code_simp
  have h3: "resolve_group ?s None [0, 1] = Inr ''PTS''" by code_simp
  have h4: "collect (\<lambda>i. lms (landmarks (heap ?s i)) ''PTS'') [0, 1] = Inr ?sh" by code_simp
  have "fst (sdf_train example_env [0, 1, 2] None None False (Some 2) ?s) = None" by code_simp
  then have h5: "sdf_train example_env [0, 1, 2] None None False (Some 2) ?s = (None, example_trained)"
    by (simp add: prod_eq_iff example_trained_def)
  note a = reference_shape_set_once [where s = ?s and E = example_env, THEN conjunct1,
      THEN mp, THEN mp, THEN mp, THEN mp, THEN mp, OF h1 h2 h3 h4 h5]
  from a have c1: "reference_shape example_trained =
       Some (compute_reference_shape example_env ?sh (diagonal ?s))"
    by (rule conjunct1)
  from a have c2: "filter is_reference_event (new_events ?s example_trained) =
       [Warn NoReferenceShapeWarning, ComputeReferenceShape ?sh (diagonal ?s)]"
    by simp
  have c3: "reference_shape (snd (sdf_train example_env [3] None None True None example_trained)) =
       Some (compute_reference_shape example_env ?sh (diagonal ?s))"
    using reference_shape_set_once [where s = example_trained and E = example_env,
        THEN conjunct2, THEN mp, THEN mp, OF c1 surjective_pairing]
    by (rule conjunct1)
  from h1 h2 h3 h4 h5 c1 c2 c3 show ?thesis by (intro conjI)
qed

subsection \<open>Landmark groups attached to the images\<close>

lemma keys_of_set_landmarks:
  "keys_of (set_landmarks i k v s) a = (if a = i then insert k (keys_of s a) else keys_of s a)"
  by (simp add: keys_of_def set_landmarks_def group_labels_def dom_update)

lemma lms_set_landmarks:
  "lms (landmarks (heap (set_landmarks i k v s) a)) k' =
     (if a = i \<and> k' = k then Inr v else lms (landmarks (heap s a)) k')"
  by (simp add: lms_def set_landmarks_def update_conv')

lemma keys_of_simps [simp]:
  "keys_of (emit e s) = keys_of s"
  "keys_of (s\<lparr>rng := g\<rparr>) = keys_of s"
  by (simp_all add: keys_of_def fun_eq_iff)

lemma attach_gt_bb_keys:
  "attach_gt_bb E grp b s = (None, s') \<Longrightarrow>
     keys_of s' a = (if a \<in> set b then insert (''__gt_bb_'' @ ''0'') (keys_of s a) else keys_of s a)"
proof (induction b arbitrary: s)
  case Nil
  then show ?case by simp
next
  case (Cons i rest)
  from Cons.prems obtain gt_s where
    g: "lms (landmarks (heap s i)) grp = Inr gt_s" and
    r: "attach_gt_bb E grp rest (set_landmarks i (''__gt_bb_'' @ ''0'') (bounding_box E gt_s) s) = (None, s')"
    by (auto split: sum.splits)
  from Cons.IH [OF r] show ?case
    by (auto simp: keys_of_set_landmarks)
qed

lemma attach_gt_bb_frame:
  "attach_gt_bb E grp b s = (err, s') \<Longrightarrow> a \<notin> set b \<Longrightarrow> landmarks (heap s' a) = landmarks (heap s a)"
proof (induction b arbitrary: s)
  case Nil
  then show ?case by simp
next
  case (Cons i rest)
  show ?case
  proof (cases "lms (landmarks (heap s i)) grp")
    case (Inl e)
    with Cons.prems show ?thesis by simp
  next
    case (Inr gt_s)
    with Cons.prems have
      r: "attach_gt_bb E grp rest (set_landmarks i (''__gt_bb_'' @ ''0'') (bounding_box E gt_s) s) = (err, s')"
      by simp
    from Cons.prems(2) have "a \<notin> set rest" "a \<noteq> i" by auto
    from Cons.IH [OF r this(1)] this(2) show ?thesis
      by (simp add: set_landmarks_def)
  qed
qed

lemma perturb_image_keys:
  "perturb_image E grp bb_group key0 i js s = (None, s') \<Longrightarrow>
     keys_of s' a = (if a = i then set (generated_keys bb_group js) \<union> keys_of s a else keys_of s a)
     \<and> n_perturbations s' = n_perturbations s"
proof (induction js arbitrary: s)
  case Nil
  then show ?case by (simp add: generated_keys_def)
next
  case (Cons j js)
  from Cons.prems obtain g bb where
    g: "lms (landmarks (heap s i)) grp = Inr g" and
    bb: "lms (landmarks (heap s i)) key0 = Inr bb"
    by (auto split: sum.splits)
  obtain p_s r' where p: "perturb_from_bounding_box E (rng s) (bounding_box E g) bb = (p_s, r')"
    by (cases "perturb_from_bounding_box E (rng s) (bounding_box E g) bb")
  let ?s1 = "set_landmarks i (bb_group @ ''_'' @ str_nat j) p_s
               (emit (Perturb (bounding_box E g) bb) (s\<lparr>rng := r'\<rparr>))"
  from Cons.prems g bb p have "perturb_image E grp bb_group key0 i js ?s1 = (None, s')"
    by simp
  from Cons.IH [OF this] show ?case
    by (auto simp: keys_of_set_landmarks generated_keys_def)
qed

lemma perturb_image_frame:
  "perturb_image E grp bb_group key0 i js s = (err, s') \<Longrightarrow> a \<noteq> i \<Longrightarrow>
     landmarks (heap s' a) = landmarks (heap s a)"
proof (induction js arbitrary: s)
  case Nil
  then show ?case by simp
next
  case (Cons j js)
  show ?case
  proof (cases "lms (landmarks (heap s i)) grp")
    case (Inl e)
    with Cons.prems show ?thesis by simp
  next
    case g: (Inr g)
    show ?thesis
    proof (cases "lms (landmarks (heap s i)) key0")
      case (Inl e)
      with g Cons.prems show ?thesis by simp
    next
      case (Inr bb)
      obtain p_s r' where p: "perturb_from_bounding_box E (rng s) (bounding_box E g) bb = (p_s, r')"
        by (cases "perturb_from_bounding_box E (rng s) (bounding_box E g) bb")
      let ?s1 = "set_landmarks i (bb_group @ ''_'' @ str_nat j) p_s
                  (emit (Perturb (bounding_box E g) bb) (s\<lparr>rng := r'\<rparr>))"
      from g Inr p Cons.prems have "perturb_image E grp bb_group key0 i js ?s1 = (err, s')"
        by simp
      from Cons.IH [OF this Cons.prems(2)] Cons.prems(2) show ?thesis
        by (simp add: set_landmarks_def emit_def)
    qed
  qed
qed

lemma perturb_images_keys:
  "perturb_images E grp bb_group key0 b s = (None, s') \<Longrightarrow>
     keys_of s' a =
       (if a \<in> set b then set (generated_keys bb_group [1 ..< nat (n_perturbations s)]) \<union> keys_of s a
        else keys_of s a)
     \<and> n_perturbations s' = n_perturbations s"
proof (induction b arbitrary: s)
  case Nil
  then show ?case by simp
next
  case (Cons i rest)
  from Cons.prems obtain s1 where
    p: "perturb_image E grp bb_group key0 i [1 ..< nat (n_perturbations s)] s = (None, s1)" and
    r: "perturb_images E grp bb_group key0 rest s1 = (None, s')"
    by (auto split: prod.splits option.splits)
  from perturb_image_keys [OF p] have
    k1: "keys_of s1 a = (if a = i then set (generated_keys bb_group [1 ..< nat (n_perturbations s)]) \<union> keys_of s a
                         else keys_of s a)"
    and n1: "n_perturbations s1 = n_perturbations s"
    by simp_all
  from Cons.IH [OF r] n1 k1 show ?case
    by auto
qed

lemma perturb_images_frame:
  "perturb_images E grp bb_group key0 b s = (err, s') \<Longrightarrow> a \<notin> set b \<Longrightarrow>
     landmarks (heap s' a) = landmarks (heap s a)"
proof (induction b arbitrary: s)
  case Nil
  then show ?case by simp
next
  case (Cons i rest)
  obtain e1 s1 where p: "perturb_image E grp bb_group key0 i [1 ..< nat (n_perturbations s)] s = (e1, s1)"
    by (cases "perturb_image E grp bb_group key0 i [1 ..< nat (n_perturbations s)] s")
  from Cons.prems(2) have a: "a \<noteq> i" "a \<notin> set rest" by auto
  from perturb_image_frame [OF p a(1)] have f1: "landmarks (heap s1 a) = landmarks (heap s a)" .
  show ?case
  proof (cases e1)
    case None
    with p Cons.prems have "perturb_images E grp bb_group key0 rest s1 = (err, s')" by simp
    from Cons.IH [OF this a(2)] f1 show ?thesis by simp
  next
    case (Some e)
    with p Cons.prems have "s' = s1" by simp
    with f1 show ?thesis by simp
  qed
qed

lemma ensure_reference_shape_heap:
  "ensure_reference_shape E batched grp b s = (res, s') \<Longrightarrow> heap s' = heap s"
  by (auto simp: ensure_reference_shape_def Let_def split: option.splits sum.splits if_splits)

lemma rescale_result:
  "rescale E grp r b s = (b', s') \<Longrightarrow>
     b' = snd (rescale_images_to_reference_shape E (heap s) b grp r)
     \<and> heap s' = fst (rescale_images_to_reference_shape E (heap s) b grp r)"
  by (auto simp: rescale_def Let_def split: prod.splits)

lemma generate_perturbations_keys_mono:
  assumes "generate_perturbations E grp bb_group b s = (None, s')"
  shows "keys_of s a \<subseteq> keys_of s' a"
  using assms
proof (cases rule: generate_perturbations_cases)
  case empty
  then show ?thesis by simp
next
  case (one i0 key0)
  from perturb_images_keys [OF one(3)] show ?thesis by auto
next
  case (reset i0)
  then show ?thesis by (simp add: keys_of_def)
next
  case (agree i0)
  then show ?thesis by simp
qed

lemma generate_perturbations_frame:
  assumes "generate_perturbations E grp bb_group b s = (err, s')" and "a \<notin> set b"
  shows "landmarks (heap s' a) = landmarks (heap s a)"
  using assms(1)
proof (cases rule: generate_perturbations_cases)
  case empty
  then show ?thesis by simp
next
  case (one i0 key0)
  from perturb_images_frame [OF one(3) assms(2)] show ?thesis .
next
  case (reset i0)
  then show ?thesis by simp
next
  case (agree i0)
  then show ?thesis by simp
qed

lemma quiet_heap: "quiet s s' \<Longrightarrow> heap s' = heap s"
  by (simp add: quiet_def)

text \<open>
  Claim C10, as amended. Without a bounding-box group, a batch that gets as far as the
  scale loop has attached a landmark group \<^verbatim>\<open>__gt_bb_0\<close> to every image object that
  \<^verbatim>\<open>rescale_images_to_reference_shape\<close> returned for the batch, and the orchestrator has
  written to no other image object. When the first of these objects carries one box under
  the namespace, the groups \<^verbatim>\<open>bb_group_1\<close>, \<open>\<dots>\<close>, \<^verbatim>\<open>bb_group_(n_perturbations - 1)\<close>
  are attached to every one of them, and to no other image object. The scale loop leaves
  the store as it is.
\<close>

theorem landmarks_attached_to_rescaled_images:
  "(prepare_batch E grp_opt None batched b s = (Inr (grp, r, b', bb_group, keys), s4) \<longrightarrow>
      bb_group = ''__gt_bb_''
    \<and> b' = snd (rescale_images_to_reference_shape E (heap s) b grp r)
    \<and> (\<forall>i\<in>set b'. ''__gt_bb_0'' \<in> keys_of s4 i)
    \<and> (\<forall>a. a \<notin> set b' \<longrightarrow>
          landmarks (heap s4 a) =
            landmarks (fst (rescale_images_to_reference_shape E (heap s) b grp r) a)))
   \<and> (index b' 0 = Inr i0 \<longrightarrow>
      keys_matching E (landmarks (heap s3 i0)) (bb_pattern bb_group) = [key0] \<longrightarrow>
      generate_perturbations E grp bb_group b' s3 = (None, s4') \<longrightarrow>
        (\<forall>i\<in>set b'. set (generated_keys bb_group [1 ..< nat (n_perturbations s3)]) \<subseteq> keys_of s4' i)
      \<and> (\<forall>a. a \<notin> set b' \<longrightarrow> landmarks (heap s4' a) = landmarks (heap s3 a)))
   \<and> (scale_loop E grp r keys b' inc js fi cs s4 = (err, fin, s5) \<longrightarrow> heap s5 = heap s4)"
proof (intro conjI impI)
  assume p: "prepare_batch E grp_opt None batched b s = (Inr (grp, r, b', bb_group, keys), s4)"
  from p obtain s1 s2 s3' where
    er: "ensure_reference_shape E batched grp b s = (Inr r, s1)" and
    rs: "rescale E grp r b s1 = (b', s2)" and
    rb: "resolve_bb_group E grp None b' s2 = (Inr bb_group, s3')" and
    gp: "generate_perturbations E grp bb_group b' s3' = (None, s4)"
    by (rule prepare_batch_InrE)
  from er have h1: "heap s1 = heap s" by (rule ensure_reference_shape_heap)
  from rescale_result [OF rs] h1 have
    b': "b' = snd (rescale_images_to_reference_shape E (heap s) b grp r)" and
    h2: "heap s2 = fst (rescale_images_to_reference_shape E (heap s) b grp r)"
    by simp_all
  from rb have bg: "bb_group = ''__gt_bb_''" and at: "attach_gt_bb E grp b' s2 = (None, s3')"
    by (auto simp: resolve_bb_group_def split: prod.splits option.splits)
  show "bb_group = ''__gt_bb_''" by (rule bg)
  show "b' = snd (rescale_images_to_reference_shape E (heap s) b grp r)" by (rule b')
  show "\<forall>i\<in>set b'. ''__gt_bb_0'' \<in> keys_of s4 i"
  proof
    fix i assume "i \<in> set b'"
    with attach_gt_bb_keys [OF at, of i] have "''__gt_bb_0'' \<in> keys_of s3' i" by simp
    with generate_perturbations_keys_mono [OF gp, of i] show "''__gt_bb_0'' \<in> keys_of s4 i"
      by blast
  qed
  show "\<forall>a. a \<notin> set b' \<longrightarrow>
          landmarks (heap s4 a) =
            landmarks (fst (rescale_images_to_reference_shape E (heap s) b grp r) a)"
  proof (intro allI impI)
    fix a assume a: "a \<notin> set b'"
    from generate_perturbations_frame [OF gp a] attach_gt_bb_frame [OF at a] h2
    show "landmarks (heap s4 a) =
            landmarks (fst (rescale_images_to_reference_shape E (heap s) b grp r) a)"
      by simp
  qed
next
  assume i0: "index b' 0 = Inr i0"
    and k: "keys_matching E (landmarks (heap s3 i0)) (bb_pattern bb_group) = [key0]"
    and g: "generate_perturbations E grp bb_group b' s3 = (None, s4')"
  from g i0 k have pi: "perturb_images E grp bb_group key0 b' s3 = (None, s4')"
    by (simp add: generate_perturbations_def)
  show "\<forall>i\<in>set b'. set (generated_keys bb_group [1 ..< nat (n_perturbations s3)]) \<subseteq> keys_of s4' i"
    using perturb_images_keys [OF pi] by auto
  show "\<forall>a. a \<notin> set b' \<longrightarrow> landmarks (heap s4' a) = landmarks (heap s3 a)"
    using perturb_images_frame [OF pi] by blast
next
  assume "scale_loop E grp r keys b' inc js fi cs s4 = (err, fin, s5)"
  then have "quiet s4 s5" by (rule scale_loop_quiet)
  then show "heap s5 = heap s4" by (rule quiet_heap)
qed

theorem caller_images_untouched_counterexample:
  "fst (sdf_init example_env [0, 1] None None None (example_state [] 3)) = None
   \<and> landmarks (heap (snd (sdf_init example_env [0, 1] None None None (example_state [] 3))) 0)
       = landmarks (heap (example_state [] 3) 0)
   \<and> landmarks (heap (snd (sdf_init example_env [0, 1] None None None (example_state [] 3))) 1)
       = landmarks (heap (example_state [] 3) 1)
   \<and> group_labels (landmarks (heap (snd (sdf_init example_env [0, 1] None None None
        (example_state [] 3))) 0)) = [''PTS'']
   \<and> group_labels (landmarks (heap (snd (sdf_init example_env [0, 1] None None None
        (example_state [] 3))) 100)) = [''PTS'', ''__gt_bb_0'', ''__gt_bb__1'', ''__gt_bb__2'']"
  by code_simp

theorem landmarks_attached_to_rescaled_images_witness:
  "fst (prepare_batch example_env None None False [0, 1] (example_state [] 3)) =
       Inr (''PTS'', [(1 / 2, 0), (5 / 2, 4), (9 / 2, 2)], [100, 101], ''__gt_bb_'',
            [''__gt_bb_0'', ''__gt_bb__1'', ''__gt_bb__2''])
   \<and> ''__gt_bb_0'' \<in> keys_of (snd (prepare_batch example_env None None False [0, 1]
                                     (example_state [] 3))) 100
   \<and> index [0, 1 :: nat] 0 = Inr 0
   \<and> keys_matching example_env (landmarks (heap (example_state [''__gt_bb_0''] 3) 0))
        (bb_pattern ''__gt_bb_'') = [''__gt_bb_0'']
   \<and> fst (generate_perturbations example_env ''PTS'' ''__gt_bb_'' [0, 1]
             (example_state [''__gt_bb_0''] 3)) = None
   \<and> ''__gt_bb__2'' \<in> keys_of (snd (generate_perturbations example_env ''PTS'' ''__gt_bb_'' [0, 1]
                                       (example_state [''__gt_bb_0''] 3))) 1
   \<and> heap (snd (snd (scale_loop example_env ''PTS'' [] [] [0] False [0, 1] [] []
                       (example_state [] 3)))) = heap (example_state [] 3)"
proof -
  let ?s = "example_state [] 3"
  let ?p = "prepare_batch example_env None None False [0, 1] ?s"
  let ?s3 = "example_state [''__gt_bb_0''] 3"
  let ?g = "generate_perturbations example_env ''PTS'' ''__gt_bb_'' [0, 1] ?s3"
  let ?l = "scale_loop example_env ''PTS'' [] [] [0] False [0, 1] [] [] ?s"
  have p: "fst ?p = Inr (''PTS'', [(1 / 2, 0), (5 / 2, 4), (9 / 2, 2)], [100, 101], ''__gt_bb_'',
            [''__gt_bb_0'', ''__gt_bb__1'', ''__gt_bb__2''])"
    by code_simp
  have p': "?p = (Inr (''PTS'', [(1 / 2, 0), (5 / 2, 4), (9 / 2, 2)], [100, 101], ''__gt_bb_'',
            [''__gt_bb_0'', ''__gt_bb__1'', ''__gt_bb__2'']), snd ?p)"
    using p by (simp add: prod_eq_iff)
  have c1: "''__gt_bb_0'' \<in> keys_of (snd ?p) 100"
    using landmarks_attached_to_rescaled_images [THEN conjunct1, THEN mp, OF p']
    by simp
  have i: "index [0, 1 :: nat] 0 = Inr 0" by code_simp
  have k: "keys_matching example_env (landmarks (heap ?s3 0)) (bb_pattern ''__gt_bb_'') = [''__gt_bb_0'']"
    by code_simp
  have g: "fst ?g = None" by code_simp
  have g': "?g = (None, snd ?g)" using g by (simp add: prod_eq_iff)
  have n: "''__gt_bb__2'' \<in> set (generated_keys ''__gt_bb_'' [1 ..< nat (n_perturbations ?s3)])"
    by code_simp
  have c2: "''__gt_bb__2'' \<in> keys_of (snd ?g) 1"
    using landmarks_attached_to_rescaled_images
      [THEN conjunct2, THEN conjunct1, THEN mp, THEN mp, THEN mp, OF i k g', THEN conjunct1] n
    by auto
  have l': "?l = (fst ?l, fst (snd ?l), snd (snd ?l))" by simp
  have c3: "heap (snd (snd ?l)) = heap ?s"
    using landmarks_attached_to_rescaled_images [THEN conjunct2, THEN conjunct2, THEN mp, OF l'] .
  from p c1 i k g c2 c3 show ?thesis by (intro conjI)
qed

end
